theory Spec2Isabelle
  imports Complex_Main "HOL-Library.Word" "HOL-Library.Sublist" "HOL-Library.Product_Lexorder" "HOL-Library.Multiset"
begin

section \<open>JavaScript strings and the string methods the engine calls\<close>

text \<open>
  A JavaScript string is a sequence of UTF-16 code units. The engine only uses
  \<^verbatim>\<open>indexOf\<close>, \<^verbatim>\<open>slice\<close>, \<^verbatim>\<open>split\<close>, \<^verbatim>\<open>join\<close>, \<^verbatim>\<open>trim\<close>
  and \<^verbatim>\<open>trimStart\<close>; each is given here with the result ECMAScript prescribes,
  including the \<open>-1\<close> of a failed search and the clamping of \<^verbatim>\<open>slice\<close>.
\<close>

type_synonym utf16 = "16 word"
type_synonym jsstring = "utf16 list"

definition js :: "string \<Rightarrow> jsstring" where
  "js s = map of_char s"

definition NL :: utf16 where
  "NL = 0xA"

text \<open>White space and line terminators, the code units \<^verbatim>\<open>trim\<close> strips.\<close>

definition isWhiteSpace :: "utf16 \<Rightarrow> bool" where
  "isWhiteSpace c = (c \<in> set [0x9, 0xA, 0xB, 0xC, 0xD, 0x20, 0xA0, 0x1680,
      0x2000, 0x2001, 0x2002, 0x2003, 0x2004, 0x2005, 0x2006, 0x2007, 0x2008, 0x2009, 0x200A,
      0x2028, 0x2029, 0x202F, 0x205F, 0x3000, 0xFEFF])"

definition trimStart :: "jsstring \<Rightarrow> jsstring" where
  "trimStart s = dropWhile isWhiteSpace s"

definition trimEnd :: "jsstring \<Rightarrow> jsstring" where
  "trimEnd s = rev (dropWhile isWhiteSpace (rev s))"

definition trim :: "jsstring \<Rightarrow> jsstring" where
  "trim s = trimEnd (trimStart s)"

text \<open>
  \<^verbatim>\<open>s.indexOf(pat, position)\<close>: the least index \<open>k \<ge> position\<close> at which \<open>pat\<close>
  occurs in \<open>s\<close>, or \<open>-1\<close>. \<open>find_from pat s k\<close> scans \<open>s\<close>, which starts at
  index \<open>k\<close> of the whole string.
\<close>

fun find_from :: "'a list \<Rightarrow> 'a list \<Rightarrow> nat \<Rightarrow> nat option" where
  "find_from pat [] k = (if pat = [] then Some k else None)"
| "find_from pat (c # s) k =
     (if prefix pat (c # s) then Some k else find_from pat s (Suc k))"

definition indexOf :: "'a list \<Rightarrow> 'a list \<Rightarrow> int \<Rightarrow> int" where
  "indexOf s pat position =
     (let start = min (nat position) (length s)
      in case find_from pat (drop start s) start of
           None \<Rightarrow> - 1
         | Some k \<Rightarrow> int k)"

text \<open>
  \<^verbatim>\<open>s.slice(start, end)\<close>: a negative index counts from the end, and both are
  clamped to the string. \<open>slice1\<close> is the call with one argument.
\<close>

definition slice :: "'a list \<Rightarrow> int \<Rightarrow> int \<Rightarrow> 'a list" where
  "slice s start end =
     (let len = int (length s);
          from = (if start < 0 then max (len + start) 0 else min start len);
          to = (if end < 0 then max (len + end) 0 else min end len)
      in take (nat (to - from)) (drop (nat from) s))"

definition slice1 :: "'a list \<Rightarrow> int \<Rightarrow> 'a list" where
  "slice1 s start = slice s start (int (length s))"

text \<open>
  \<^verbatim>\<open>s.split(sep)\<close> for a separator of one code unit (the engine splits on
  \<^verbatim>\<open>'\n'\<close> only): the empty string gives one empty piece.
\<close>

fun split :: "'a \<Rightarrow> 'a list \<Rightarrow> 'a list list" where
  "split sep [] = [[]]"
| "split sep (c # s) =
     (if c = sep then [] # split sep s
      else (case split sep s of
              [] \<Rightarrow> [[c]]
            | piece # pieces \<Rightarrow> (c # piece) # pieces))"

fun join :: "'a list \<Rightarrow> 'a list list \<Rightarrow> 'a list" where
  "join sep [] = []"
| "join sep [x] = x"
| "join sep (x # y # ys) = x @ sep @ join sep (y # ys)"


section \<open>ChunkDecoder: \<^verbatim>\<open>utils/streamParser.ts\<close>\<close>

text \<open>
  What \<^verbatim>\<open>JSON.parse\<close> returns for a line, as far as the engine reads it. The
  value \<^verbatim>\<open>null\<close> has no properties: reading \<^verbatim>\<open>.text\<close> of it throws a
  \<^verbatim>\<open>TypeError\<close>. Of any other value only the property \<^verbatim>\<open>text\<close> is read:
  \<open>text_field\<close> is \<open>Some t\<close> when it is the string \<open>t\<close> (or a value that is not
  a string, which the filter below keeps and \<^verbatim>\<open>join\<close> turns into the string
  \<open>t\<close>), and \<open>None\<close> when the value has no such property or the filter drops
  it (a number, a boolean, \<^verbatim>\<open>null\<close>).
\<close>

record StreamingChunk =
  text_field :: "jsstring option"

datatype payload = Null | Value StreamingChunk

datatype js_error = TypeError

text \<open>
  \<^verbatim>\<open>parseStreamChunk\<close>. \<^verbatim>\<open>JSON.parse\<close> is the language's own function and is a
  parameter here: \<open>None\<close> stands for the \<^verbatim>\<open>SyntaxError\<close> it throws, which the
  \<^verbatim>\<open>catch\<close> of the loop swallows. The filter keeps the lines whose trimmed
  text is truthy, that is non-empty.
\<close>

definition parseStreamChunk :: "(jsstring \<Rightarrow> 'a option) \<Rightarrow> jsstring \<Rightarrow> 'a list" where
  "parseStreamChunk JSON_parse chunk =
     (let lines = filter (\<lambda>line. trim line \<noteq> []) (split NL chunk)
      in foldl (\<lambda>results line.
                  case JSON_parse line of
                    Some payload \<Rightarrow> results @ [payload]
                  | None \<Rightarrow> results) [] lines)"

text \<open>
  \<^verbatim>\<open>extractTextFromChunks\<close>: \<^verbatim>\<open>filter\<close> calls its callback on the chunks
  in order, and the callback throws on a \<^verbatim>\<open>null\<close> chunk; otherwise the texts
  that are present and non-empty are joined.
\<close>

fun keepsChunk :: "payload \<Rightarrow> js_error + bool" where
  "keepsChunk Null = Inl TypeError"
| "keepsChunk (Value chunk) =
     Inr (case text_field chunk of None \<Rightarrow> False | Some t \<Rightarrow> length t > 0)"

fun filterChunks :: "payload list \<Rightarrow> js_error + payload list" where
  "filterChunks [] = Inr []"
| "filterChunks (chunk # chunks) =
     (case keepsChunk chunk of
        Inl e \<Rightarrow> Inl e
      | Inr keep \<Rightarrow>
          (case filterChunks chunks of
             Inl e \<Rightarrow> Inl e
           | Inr kept \<Rightarrow> Inr (if keep then chunk # kept else kept)))"

fun chunkText :: "payload \<Rightarrow> jsstring" where
  "chunkText Null = []"
| "chunkText (Value chunk) = (case text_field chunk of None \<Rightarrow> [] | Some t \<Rightarrow> t)"

definition extractTextFromChunks :: "payload list \<Rightarrow> js_error + jsstring" where
  "extractTextFromChunks chunks =
     (case filterChunks chunks of
        Inl e \<Rightarrow> Inl e
      | Inr kept \<Rightarrow> Inr (join [] (map chunkText kept)))"

text \<open>
  A stand-in for \<^verbatim>\<open>JSON.parse\<close> on the lines the examples below use: the
  record \<^verbatim>\<open>{"text":"..."}\<close> with no escape in the text, and the line
  \<^verbatim>\<open>null\<close>. On such a line it returns what \<^verbatim>\<open>JSON.parse\<close> returns, and it
  rejects every other line.
\<close>

definition text_record_prefix :: jsstring where
  "text_record_prefix = [0x7B, 0x22] @ js ''text'' @ [0x22, 0x3A, 0x22]"

definition text_record_suffix :: jsstring where
  "text_record_suffix = [0x22, 0x7D]"

definition text_record :: "jsstring \<Rightarrow> jsstring" where
  "text_record t = text_record_prefix @ t @ text_record_suffix"

definition plain_unit :: "utf16 \<Rightarrow> bool" where
  "plain_unit c = (c \<noteq> 0x22 \<and> c \<noteq> 0x5C \<and> 0x20 \<le> c)"

definition parse_text_record :: "jsstring \<Rightarrow> payload option" where
  "parse_text_record line =
     (let n = length line; p = length text_record_prefix; q = length text_record_suffix
      in if line = js ''null'' then Some Null
         else if p + q \<le> n \<and> take p line = text_record_prefix
            \<and> drop (n - q) line = text_record_suffix
            \<and> list_all plain_unit (take (n - p - q) (drop p line))
         then Some (Value \<lparr>text_field = Some (take (n - p - q) (drop p line))\<rparr>)
         else None)"


section \<open>TranscriptReconciler: \<^verbatim>\<open>MeetingMinutesTranscription.tsx\<close>\<close>

text \<open>
  One piece of a transcription result, and the result as the transcription hooks
  deliver it. Times are seconds; the model takes them to be finite numbers.
\<close>

record Transcript =
  speakerLabel :: "jsstring option"
  transcript :: jsstring

datatype source = microphone | screen

record RawTranscript =
  resultId :: jsstring
  startTime :: real
  endTime :: real
  isPartial :: bool
  transcripts :: "Transcript list"

record TranscriptionSegment = RawTranscript +
  source :: source
  sessionId :: int

text \<open>\<^verbatim>\<open>Array.prototype.findIndex\<close>: the first index that satisfies \<open>P\<close>, or \<open>-1\<close>.\<close>

fun findIndex_from :: "('a \<Rightarrow> bool) \<Rightarrow> 'a list \<Rightarrow> int \<Rightarrow> int" where
  "findIndex_from P [] k = - 1"
| "findIndex_from P (x # xs) k = (if P x then k else findIndex_from P xs (k + 1))"

definition findIndex :: "('a \<Rightarrow> bool) \<Rightarrow> 'a list \<Rightarrow> int" where
  "findIndex P xs = findIndex_from P xs 0"

text \<open>The updater that \<^verbatim>\<open>updateTranscriptionSegments\<close> hands to the state setter.\<close>

definition updateTranscriptionSegments ::
  "TranscriptionSegment \<Rightarrow> TranscriptionSegment list \<Rightarrow> TranscriptionSegment list" where
  "updateTranscriptionSegments newSegment prev =
     (let existingIndex = findIndex (\<lambda>seg. resultId seg = resultId newSegment
                                          \<and> source seg = source newSegment) prev
      in if existingIndex \<ge> 0 then prev[nat existingIndex := newSegment]
         else prev @ [newSegment])"

text \<open>
  \<^verbatim>\<open>Array.prototype.sort\<close> with a comparator. ECMAScript requires the sort to be
  stable, so for a consistent comparator the result is the one stable ordering
  of the input; insertion from the right computes it. The comparator returns a
  number, and only its sign is read.
\<close>

fun insertBy :: "('a \<Rightarrow> 'a \<Rightarrow> real) \<Rightarrow> 'a \<Rightarrow> 'a list \<Rightarrow> 'a list" where
  "insertBy cmp x [] = [x]"
| "insertBy cmp x (y # ys) = (if cmp x y \<le> 0 then x # y # ys else y # insertBy cmp x ys)"

definition sortBy :: "('a \<Rightarrow> 'a \<Rightarrow> real) \<Rightarrow> 'a list \<Rightarrow> 'a list" where
  "sortBy cmp xs = foldr (insertBy cmp) xs []"

definition compareSegments :: "TranscriptionSegment \<Rightarrow> TranscriptionSegment \<Rightarrow> real" where
  "compareSegments a b =
     (if sessionId a \<noteq> sessionId b then real_of_int (sessionId a - sessionId b)
      else startTime a - startTime b)"

definition sortedSegments :: "TranscriptionSegment list \<Rightarrow> TranscriptionSegment list" where
  "sortedSegments segments = sortBy compareSegments segments"

text \<open>
  \<^verbatim>\<open>transcriptionText\<close>: one line per piece of each sorted segment, the lines
  joined by newlines. Two things are parameters, so that what is proved holds
  whatever they are: the time format \<^verbatim>\<open>formatTime\<close>, and \<open>speakerMapping\<close>,
  which stands for the property read \<^verbatim>\<open>speakerMapping[label]\<close>: \<open>Some name\<close>
  when the object has the property, as its own or by inheritance, with the text
  \<open>name\<close> that the template literal gives its value, and \<open>None\<close> when the read
  gives \<^verbatim>\<open>undefined\<close>. An empty name is falsy, and \<^verbatim>\<open>||\<close> then falls back to
  the raw label.
\<close>

definition segmentLine ::
  "(real \<Rightarrow> jsstring) \<Rightarrow> (jsstring \<rightharpoonup> jsstring) \<Rightarrow> TranscriptionSegment \<Rightarrow> Transcript \<Rightarrow> jsstring" where
  "segmentLine formatTime speakerMapping segment t =
     (let timeStr = js ''['' @ formatTime (startTime segment) @ js '']'';
          partialIndicator = (if isPartial segment then js '' (...)'' else []);
          label = (case speakerLabel t of
                     None \<Rightarrow> []
                   | Some l \<Rightarrow>
                       (if l = [] then []
                        else (case speakerMapping l of
                                None \<Rightarrow> l
                              | Some name \<Rightarrow> (if name = [] then l else name)) @ js '': ''))
      in timeStr @ js '' '' @ label @ transcript t @ partialIndicator)"

definition segmentText ::
  "(real \<Rightarrow> jsstring) \<Rightarrow> (jsstring \<rightharpoonup> jsstring) \<Rightarrow> TranscriptionSegment \<Rightarrow> jsstring" where
  "segmentText formatTime speakerMapping segment =
     join [NL] (map (segmentLine formatTime speakerMapping segment) (transcripts segment))"

definition transcriptionText ::
  "(real \<Rightarrow> jsstring) \<Rightarrow> (jsstring \<rightharpoonup> jsstring) \<Rightarrow> TranscriptionSegment list \<Rightarrow> jsstring" where
  "transcriptionText formatTime speakerMapping segments =
     join [NL] (map (segmentText formatTime speakerMapping) (sortedSegments segments))"

text \<open>
  The object the component reads: \<^verbatim>\<open>Object.fromEntries\<close> of the names in
  \<open>speakers\<close>, split at commas and trimmed, under the keys \<^verbatim>\<open>spk_0\<close>,
  \<^verbatim>\<open>spk_1\<close> and so on. A key that is not among them is looked up in
  \<open>inherited\<close>, the properties every object has from \<^verbatim>\<open>Object.prototype\<close>
  (\<^verbatim>\<open>constructor\<close>, \<^verbatim>\<open>toString\<close>, ...), whose text the engine defines.
\<close>

definition digit :: "nat \<Rightarrow> utf16" where
  "digit n = of_nat (48 + n mod 10)"

fun decimal :: "nat \<Rightarrow> jsstring" where
  "decimal n = (if n < 10 then [digit n] else decimal (n div 10) @ [digit n])"

definition speakerEntries :: "jsstring \<Rightarrow> (jsstring \<times> jsstring) list" where
  "speakerEntries speakers =
     map (\<lambda>(idx, speaker). (js ''spk_'' @ decimal idx, trim speaker))
       (enumerate 0 (split 0x2C speakers))"

definition speakerMappingOf ::
  "(jsstring \<rightharpoonup> jsstring) \<Rightarrow> jsstring \<Rightarrow> (jsstring \<rightharpoonup> jsstring)" where
  "speakerMappingOf inherited speakers label =
     (case map_of (speakerEntries speakers) label of
        Some name \<Rightarrow> Some name
      | None \<Rightarrow> inherited label)"

text \<open>
  The list the component renders: the sorted segments, each as a segment view,
  with a divider before a segment whose session differs from that of the segment
  before it.
\<close>

datatype fragment = SessionDivider | SegmentView TranscriptionSegment

fun fragmentsFrom :: "TranscriptionSegment option \<Rightarrow> TranscriptionSegment list \<Rightarrow> fragment list" where
  "fragmentsFrom prevSegment [] = []"
| "fragmentsFrom prevSegment (segment # rest) =
     (let isNewSession = (case prevSegment of
                            None \<Rightarrow> False
                          | Some p \<Rightarrow> sessionId segment \<noteq> sessionId p)
      in (if isNewSession then [SessionDivider] else [])
         @ [SegmentView segment] @ fragmentsFrom (Some segment) rest)"

definition transcriptFragments :: "TranscriptionSegment list \<Rightarrow> fragment list" where
  "transcriptFragments segments = fragmentsFrom None (sortedSegments segments)"

fun viewedSegment :: "fragment \<Rightarrow> TranscriptionSegment option" where
  "viewedSegment SessionDivider = None"
| "viewedSegment (SegmentView segment) = Some segment"

text \<open>
  The state of the component, with the state of the two transcription hooks it
  reads.

  Modelled from the spec: the hooks \<^verbatim>\<open>useMicrophone\<close> and \<^verbatim>\<open>useScreenAudio\<close> are
  not part of the sources; \<^verbatim>\<open>stop()\<close> halts acquisition and \<^verbatim>\<open>clearBuffers()\<close>
  empties the hook's list of results.
\<close>

record TranscriptionState =
  transcriptionSegments :: "TranscriptionSegment list"
  currentSessionId :: int
  enableScreenAudio :: bool
  micRawTranscripts :: "RawTranscript list"
  screenRawTranscripts :: "RawTranscript list"
  micRecording :: bool
  screenRecording :: bool
  parentTranscript :: jsstring

definition toSegment :: "RawTranscript \<Rightarrow> source \<Rightarrow> int \<Rightarrow> TranscriptionSegment" where
  "toSegment latestSegment src sid =
     \<lparr>resultId = resultId latestSegment, startTime = startTime latestSegment,
      endTime = endTime latestSegment, isPartial = isPartial latestSegment,
      transcripts = transcripts latestSegment, source = src, sessionId = sid\<rparr>"

text \<open>The two effects that merge the latest result of each hook.\<close>

definition processMicTranscripts :: "TranscriptionState \<Rightarrow> TranscriptionState" where
  "processMicTranscripts st =
     (if micRawTranscripts st \<noteq> [] then
        st\<lparr>transcriptionSegments :=
             updateTranscriptionSegments
               (toSegment (last (micRawTranscripts st)) microphone (currentSessionId st))
               (transcriptionSegments st)\<rparr>
      else st)"

definition processScreenTranscripts :: "TranscriptionState \<Rightarrow> TranscriptionState" where
  "processScreenTranscripts st =
     (if enableScreenAudio st \<and> screenRawTranscripts st \<noteq> [] then
        st\<lparr>transcriptionSegments :=
             updateTranscriptionSegments
               (toSegment (last (screenRawTranscripts st)) screen (currentSessionId st))
               (transcriptionSegments st)\<rparr>
      else st)"

definition handleClear :: "TranscriptionState \<Rightarrow> TranscriptionState" where
  "handleClear st =
     st\<lparr>transcriptionSegments := [],
        micRecording := False,
        screenRecording := False,
        micRawTranscripts := [],
        screenRawTranscripts := [],
        currentSessionId := 0,
        parentTranscript := []\<rparr>"

text \<open>The key under which a segment is merged, and a run of upserts from a collection.\<close>

definition segmentKey :: "TranscriptionSegment \<Rightarrow> jsstring \<times> source" where
  "segmentKey seg = (resultId seg, source seg)"

definition upsertAll ::
  "TranscriptionSegment list \<Rightarrow> TranscriptionSegment list \<Rightarrow> TranscriptionSegment list" where
  "upsertAll prev segs = foldl (\<lambda>acc seg. updateTranscriptionSegments seg acc) prev segs"

definition sessionTimeOrder :: "TranscriptionSegment \<Rightarrow> TranscriptionSegment \<Rightarrow> bool" where
  "sessionTimeOrder a b =
     (sessionId a < sessionId b \<or> (sessionId a = sessionId b \<and> startTime a \<le> startTime b))"


text \<open>Segments for the examples of the claims.\<close>

definition example_partial :: TranscriptionSegment where
  "example_partial = \<lparr>resultId = js ''r1'', startTime = 0, endTime = 1, isPartial = True,
     transcripts = [\<lparr>speakerLabel = None, transcript = js ''hel''\<rparr>],
     source = microphone, sessionId = 0\<rparr>"

definition example_final :: TranscriptionSegment where
  "example_final = \<lparr>resultId = js ''r1'', startTime = 0, endTime = 2, isPartial = False,
     transcripts = [\<lparr>speakerLabel = None, transcript = js ''hello''\<rparr>],
     source = microphone, sessionId = 0\<rparr>"

definition example_session0 :: TranscriptionSegment where
  "example_session0 = \<lparr>resultId = js ''r1'', startTime = 5, endTime = 6, isPartial = False,
     transcripts = [\<lparr>speakerLabel = None, transcript = js ''five''\<rparr>],
     source = microphone, sessionId = 0\<rparr>"

definition example_session1 :: TranscriptionSegment where
  "example_session1 = \<lparr>resultId = js ''r2'', startTime = 1, endTime = 2, isPartial = False,
     transcripts = [\<lparr>speakerLabel = None, transcript = js ''one''\<rparr>],
     source = screen, sessionId = 1\<rparr>"


section \<open>MarkerExtractor and the generation loop: \<^verbatim>\<open>usePromptGeneration\<close>\<close>

text \<open>The four markers of \<^verbatim>\<open>prompts/agentSystemPromptGenerator.ts\<close>.\<close>

definition MCP_SERVERS_START_MARKER :: jsstring where
  "MCP_SERVERS_START_MARKER = js ''<SELECTED_MCP_SERVERS>''"

definition MCP_SERVERS_END_MARKER :: jsstring where
  "MCP_SERVERS_END_MARKER = js ''</SELECTED_MCP_SERVERS>''"

definition SYSTEM_PROMPT_START_MARKER :: jsstring where
  "SYSTEM_PROMPT_START_MARKER = js ''<SYSTEM_PROMPT>''"

definition SYSTEM_PROMPT_END_MARKER :: jsstring where
  "SYSTEM_PROMPT_END_MARKER = js ''</SYSTEM_PROMPT>''"

text \<open>\<^verbatim>\<open>parseMCPServers\<close>; \<open>None\<close> is its \<^verbatim>\<open>null\<close>.\<close>

definition parseMCPServers :: "jsstring \<Rightarrow> jsstring list option" where
  "parseMCPServers rawOutput =
     (let startIndex = indexOf rawOutput MCP_SERVERS_START_MARKER 0;
          endIndex = indexOf rawOutput MCP_SERVERS_END_MARKER 0
      in if startIndex = - 1 \<or> endIndex = - 1 \<or> endIndex \<le> startIndex then None
         else
           (let content = slice rawOutput
                  (startIndex + int (length MCP_SERVERS_START_MARKER)) endIndex
            in Some (filter (\<lambda>line. length line > 0) (map trim (split NL content)))))"

text \<open>\<^verbatim>\<open>extractSystemPrompt\<close>.\<close>

definition extractSystemPrompt :: "jsstring \<Rightarrow> jsstring" where
  "extractSystemPrompt rawOutput =
     (let startIndex = indexOf rawOutput SYSTEM_PROMPT_START_MARKER 0
      in if startIndex = - 1 then []
         else
           (let contentStart = startIndex + int (length SYSTEM_PROMPT_START_MARKER);
                endIndex = indexOf rawOutput SYSTEM_PROMPT_END_MARKER contentStart
            in if endIndex = - 1 then trimStart (slice1 rawOutput contentStart)
               else trim (slice rawOutput contentStart endIndex)))"

text \<open>
  The state of the hook: its four state variables and its two refs
  (\<open>abortController\<close> is \<open>None\<close> for \<^verbatim>\<open>null\<close> and otherwise holds the
  \<^verbatim>\<open>aborted\<close> flag of the signal of the controller the ref points to). Each
  call of \<^verbatim>\<open>generate\<close> has a local \<open>rawOutput\<close> and a \<^verbatim>\<open>for await\<close> loop of its
  own; the calls are numbered in the order they are made, \<open>rawOutput st i\<close> is
  the local of call \<open>i\<close> and \<open>streaming st i\<close> says whether its loop is still
  consuming its stream.
\<close>

record PromptGeneration =
  generatedPrompt :: jsstring
  suggestedMCPServers :: "jsstring list"
  isGenerating :: bool
  error :: "jsstring option"
  abortController :: "bool option"
  mcpServersParsed :: bool
  rawOutput :: "nat \<Rightarrow> jsstring"
  streaming :: "nat \<Rightarrow> bool"
  calls :: nat

text \<open>\<^verbatim>\<open>generate\<close> up to the start of the loop; the new call has the number \<open>calls st\<close>.\<close>

definition generateStart :: "PromptGeneration \<Rightarrow> PromptGeneration" where
  "generateStart st =
     st\<lparr>isGenerating := True, error := None, generatedPrompt := [],
        suggestedMCPServers := [], mcpServersParsed := False,
        abortController := Some False,
        rawOutput := (rawOutput st)(calls st := []),
        streaming := (streaming st)(calls st := True),
        calls := calls st + 1\<rparr>"

text \<open>The body of the loop of call \<open>i\<close> from \<^verbatim>\<open>if (text)\<close> on.\<close>

definition processText :: "nat \<Rightarrow> jsstring \<Rightarrow> PromptGeneration \<Rightarrow> PromptGeneration" where
  "processText i t st =
     (if t \<noteq> [] then
        (let st1 = st\<lparr>rawOutput := (rawOutput st)(i := rawOutput st i @ t)\<rparr>;
             st2 = (if \<not> mcpServersParsed st1 then
                      (case parseMCPServers (rawOutput st1 i) of
                         Some servers \<Rightarrow>
                           st1\<lparr>suggestedMCPServers := servers, mcpServersParsed := True\<rparr>
                       | None \<Rightarrow> st1)
                    else st1);
             systemPrompt = extractSystemPrompt (rawOutput st2 i)
         in if systemPrompt \<noteq> [] then st2\<lparr>generatedPrompt := systemPrompt\<rparr> else st2)
      else st)"

text \<open>The \<^verbatim>\<open>finally\<close> block of call \<open>i\<close>, which runs when its loop is left in any way.\<close>

definition finish :: "nat \<Rightarrow> PromptGeneration \<Rightarrow> PromptGeneration" where
  "finish i st =
     st\<lparr>isGenerating := False, abortController := None,
        streaming := (streaming st)(i := False)\<rparr>"

text \<open>
  What the stream of call \<open>i\<close> and the user can do. A chunk that arrives when
  the loop of its call has been left has no consumer. At a chunk, the loop reads
  the controller the ref points to at that moment, and leaves by \<^verbatim>\<open>break\<close> when
  its signal is aborted. When \<^verbatim>\<open>extractTextFromChunks\<close> throws, the \<^verbatim>\<open>catch\<close>
  of \<^verbatim>\<open>generate\<close> records the error and the loop is left. An error thrown by
  the stream is recorded unless its name is \<^verbatim>\<open>AbortError\<close>.
\<close>

definition onChunk ::
  "(jsstring \<Rightarrow> payload option) \<Rightarrow> nat \<Rightarrow> jsstring \<Rightarrow> PromptGeneration
     \<Rightarrow> PromptGeneration" where
  "onChunk JSON_parse i chunk st =
     (if \<not> streaming st i then st
      else if abortController st = Some True then finish i st
      else (case extractTextFromChunks (parseStreamChunk JSON_parse chunk) of
              Inl TypeError \<Rightarrow> finish i (st\<lparr>error := Some (js ''TypeError'')\<rparr>)
            | Inr t \<Rightarrow> processText i t st))"

definition onStreamEnd :: "nat \<Rightarrow> PromptGeneration \<Rightarrow> PromptGeneration" where
  "onStreamEnd i st = (if streaming st i then finish i st else st)"

definition onStreamError :: "nat \<Rightarrow> jsstring \<Rightarrow> PromptGeneration \<Rightarrow> PromptGeneration" where
  "onStreamError i name st =
     (if streaming st i then
        finish i (if name \<noteq> js ''AbortError'' then st\<lparr>error := Some name\<rparr> else st)
      else st)"

definition cancel :: "PromptGeneration \<Rightarrow> PromptGeneration" where
  "cancel st =
     (case abortController st of
        Some aborted \<Rightarrow> st\<lparr>abortController := Some True, isGenerating := False\<rparr>
      | None \<Rightarrow> st\<lparr>isGenerating := False\<rparr>)"

definition reset :: "PromptGeneration \<Rightarrow> PromptGeneration" where
  "reset st =
     st\<lparr>generatedPrompt := [], suggestedMCPServers := [], error := None,
        isGenerating := False, mcpServersParsed := False\<rparr>"

datatype event =
    Generate
  | Chunk nat jsstring
  | StreamEnd nat
  | StreamError nat jsstring
  | Cancel

fun step ::
  "(jsstring \<Rightarrow> payload option) \<Rightarrow> PromptGeneration \<Rightarrow> event \<Rightarrow> PromptGeneration" where
  "step JSON_parse st Generate = generateStart st"
| "step JSON_parse st (Chunk i chunk) = onChunk JSON_parse i chunk st"
| "step JSON_parse st (StreamEnd i) = onStreamEnd i st"
| "step JSON_parse st (StreamError i name) = onStreamError i name st"
| "step JSON_parse st Cancel = cancel st"

definition run ::
  "(jsstring \<Rightarrow> payload option) \<Rightarrow> PromptGeneration \<Rightarrow> event list \<Rightarrow> PromptGeneration" where
  "run JSON_parse st events = foldl (step JSON_parse) st events"

text \<open>
  The states of a field of the buffer, in the words of the specification: the
  system prompt is closed when its start marker occurs and its end marker occurs
  after it, open when only the start marker does.
\<close>

definition systemPromptClosed :: "jsstring \<Rightarrow> bool" where
  "systemPromptClosed raw =
     (let startIndex = indexOf raw SYSTEM_PROMPT_START_MARKER 0
      in startIndex \<noteq> - 1
         \<and> indexOf raw SYSTEM_PROMPT_END_MARKER
             (startIndex + int (length SYSTEM_PROMPT_START_MARKER)) \<noteq> - 1)"

definition systemPromptOpen :: "jsstring \<Rightarrow> bool" where
  "systemPromptOpen raw =
     (let startIndex = indexOf raw SYSTEM_PROMPT_START_MARKER 0
      in startIndex \<noteq> - 1
         \<and> indexOf raw SYSTEM_PROMPT_END_MARKER
             (startIndex + int (length SYSTEM_PROMPT_START_MARKER)) = - 1)"

text \<open>
  The text a chunk decodes to, and whether it decodes at all, that is, holds no
  \<^verbatim>\<open>null\<close> record.
\<close>

definition decodes :: "(jsstring \<Rightarrow> payload option) \<Rightarrow> jsstring \<Rightarrow> bool" where
  "decodes JSON_parse chunk =
     (case extractTextFromChunks (parseStreamChunk JSON_parse chunk) of
        Inl e \<Rightarrow> False
      | Inr t \<Rightarrow> True)"

definition decodedText :: "(jsstring \<Rightarrow> payload option) \<Rightarrow> jsstring \<Rightarrow> jsstring" where
  "decodedText JSON_parse chunk =
     (case extractTextFromChunks (parseStreamChunk JSON_parse chunk) of
        Inl e \<Rightarrow> []
      | Inr t \<Rightarrow> t)"

text \<open>The hook as it is mounted: the initial values of its state and refs, and no call yet.\<close>

definition initialPromptGeneration :: PromptGeneration where
  "initialPromptGeneration =
     \<lparr>generatedPrompt = [], suggestedMCPServers = [], isGenerating = False, error = None,
      abortController = None, mcpServersParsed = False,
      rawOutput = (\<lambda>i. []), streaming = (\<lambda>i. False), calls = 0\<rparr>"

text \<open>
  What the proofs carry along the chunks of call \<open>i\<close> while no other call
  runs: the cache of the server list agrees with \<^verbatim>\<open>parseMCPServers\<close> on the
  buffer, and the prompt shown is the extracted one whenever that is non-empty or
  the field is not closed; and, while the loop is running, that the call was
  not cancelled and no error is set.
\<close>

definition fieldsInvariant :: "nat \<Rightarrow> PromptGeneration \<Rightarrow> bool" where
  "fieldsInvariant i st =
     ((case parseMCPServers (rawOutput st i) of
         Some v \<Rightarrow> mcpServersParsed st \<and> suggestedMCPServers st = v
       | None \<Rightarrow> \<not> mcpServersParsed st \<and> suggestedMCPServers st = [])
      \<and> (if extractSystemPrompt (rawOutput st i) \<noteq> [] \<or> \<not> systemPromptClosed (rawOutput st i)
          then generatedPrompt st = extractSystemPrompt (rawOutput st i) else True))"

definition loopInvariant :: "nat \<Rightarrow> PromptGeneration \<Rightarrow> bool" where
  "loopInvariant i st =
     (streaming st i \<and> abortController st = Some False \<and> isGenerating st \<and> error st = None
      \<and> fieldsInvariant i st)"

text \<open>The state derived from the two fields, with the buffers it is derived from.\<close>

definition markerFields ::
  "PromptGeneration \<Rightarrow> jsstring \<times> jsstring list \<times> bool \<times> (nat \<Rightarrow> jsstring)" where
  "markerFields st = (generatedPrompt st, suggestedMCPServers st, mcpServersParsed st, rawOutput st)"

text \<open>Buffers and chunks for the examples of the claims.\<close>

definition end_before_start_servers :: jsstring where
  "end_before_start_servers =
     js ''</SELECTED_MCP_SERVERS><SELECTED_MCP_SERVERS>a</SELECTED_MCP_SERVERS>''"

definition end_before_start_prompt :: jsstring where
  "end_before_start_prompt = js ''</SYSTEM_PROMPT><SYSTEM_PROMPT>a</SYSTEM_PROMPT>''"

definition split_end_marker_chunks :: "event list" where
  "split_end_marker_chunks =
     [Generate,
      Chunk 0 (text_record (js ''<SYSTEM_PROMPT> </SYS'')),
      Chunk 0 (text_record (js ''TEM_PROMPT>''))]"

definition open_servers_chunks :: "event list" where
  "open_servers_chunks =
     [Generate, Chunk 0 (text_record (js ''<SELECTED_MCP_SERVERS>aws-docs'')), StreamEnd 0]"

definition prompt_chunks :: "jsstring list" where
  "prompt_chunks =
     [text_record (js ''<SELECTED_MCP_SERVERS>a</SELECTED_MCP_SERVERS>''),
      text_record (js ''<SYSTEM_PROMPT>  You are''),
      text_record (js '' helpful</SYSTEM_PROMPT>'')]"

definition null_record_chunks :: "jsstring list" where
  "null_record_chunks =
     [text_record (js ''<SYSTEM_PROMPT>Hi''), js ''null'', text_record (js '' there'')]"

text \<open>
  A cancelled call overtaken by a new one: the first call receives a chunk, the
  user cancels and calls \<^verbatim>\<open>generate\<close> again, and then the stream of the first
  call, which nothing has stopped, delivers its next chunk.
\<close>

definition cancelled_then_restarted :: "event list" where
  "cancelled_then_restarted =
     [Generate, Chunk 0 (text_record (js ''<SYSTEM_PROMPT>Hello'')), Cancel, Generate]"

definition late_chunk :: event where
  "late_chunk = Chunk 0 (text_record (js '' world''))"


section \<open>RegenerationScheduler: \<^verbatim>\<open>MeetingMinutesGeneration\<close>\<close>

datatype minutes_style =
  summary | detail | faq | transcription | diagram | newspaper | whiteboard | custom

datatype toast = GenerationSuccess | GenerationError | CustomPromptMissing

text \<open>
  The state of the component: the prop \<open>transcriptText\<close>, the ref
  \<open>shouldGenerate\<close> (\<^verbatim>\<open>shouldGenerateRef.current\<close>), the state variables, the
  \<open>loading\<close> flag of the minutes hook, and what the component has done so far:
  the transcripts it passed to \<^verbatim>\<open>generateMinutes\<close>, in order, and the toasts it
  raised.
\<close>

record MinutesGeneration =
  transcriptText :: jsstring
  shouldGenerate :: bool
  minutesStyle :: minutes_style
  customPrompt :: jsstring
  autoGenerate :: bool
  generationFrequency :: int
  countdownSeconds :: int
  minutesLoading :: bool
  generateCalls :: "jsstring list"
  toasts :: "toast list"

text \<open>
  Modelled from the spec: the hook \<^verbatim>\<open>useMeetingMinutes\<close> is not part of the
  sources. A call of its \<^verbatim>\<open>generateMinutes\<close> starts a generation, and its
  \<^verbatim>\<open>loading\<close> flag is true from then until the generation completes, with
  success or with failure.
\<close>

definition generateMinutes :: "jsstring \<Rightarrow> MinutesGeneration \<Rightarrow> MinutesGeneration" where
  "generateMinutes t st = st\<lparr>minutesLoading := True, generateCalls := generateCalls st @ [t]\<rparr>"

definition completeMinutes :: "bool \<Rightarrow> MinutesGeneration \<Rightarrow> MinutesGeneration" where
  "completeMinutes ok st =
     st\<lparr>minutesLoading := False,
        toasts := toasts st @ [if ok then GenerationSuccess else GenerationError]\<rparr>"

text \<open>The effect that watches for the generation signal.\<close>

definition generationEffect :: "MinutesGeneration \<Rightarrow> MinutesGeneration" where
  "generationEffect st =
     (if shouldGenerate st \<and> autoGenerate st \<and> trim (transcriptText st) \<noteq> [] then
        (if \<not> minutesLoading st then
           generateMinutes (transcriptText st) (st\<lparr>shouldGenerate := False\<rparr>)
         else st\<lparr>shouldGenerate := False\<rparr>)
      else st)"

text \<open>
  The effect that sets the countdown up, and the callback of its interval, which
  runs once a second while \<open>autoGenerate\<close> is on and the frequency is positive.
\<close>

definition countdownSetup :: "MinutesGeneration \<Rightarrow> MinutesGeneration" where
  "countdownSetup st =
     (if \<not> autoGenerate st \<or> generationFrequency st \<le> 0 then st\<lparr>countdownSeconds := 0\<rparr>
      else st\<lparr>countdownSeconds := generationFrequency st * 60\<rparr>)"

definition countdownTick :: "MinutesGeneration \<Rightarrow> MinutesGeneration" where
  "countdownTick st =
     (let totalSeconds = generationFrequency st * 60;
          newValue = countdownSeconds st - 1
      in if newValue \<le> 0 then st\<lparr>shouldGenerate := True, countdownSeconds := totalSeconds\<rparr>
         else st\<lparr>countdownSeconds := newValue\<rparr>)"

definition hasTranscriptText :: "MinutesGeneration \<Rightarrow> bool" where
  "hasTranscriptText st = (trim (transcriptText st) \<noteq> [])"

definition handleManualGeneration :: "MinutesGeneration \<Rightarrow> MinutesGeneration" where
  "handleManualGeneration st =
     (if minutesStyle st = custom \<and> (customPrompt st = [] \<or> trim (customPrompt st) = []) then
        st\<lparr>toasts := toasts st @ [CustomPromptMissing]\<rparr>
      else if hasTranscriptText st \<and> \<not> minutesLoading st then
        generateMinutes (transcriptText st) st
      else st)"

text \<open>
  After an event the component renders, and the generation effect runs when one
  of its dependencies changed. (Its other dependencies are constant here, but
  for the minutes text, for which \<open>MinutesStreamed\<close> stands.) Running the effect
  a second time in a row changes nothing, so the render that its own call of
  \<^verbatim>\<open>generateMinutes\<close> causes needs no step of its own.
\<close>

definition effectDeps :: "MinutesGeneration \<Rightarrow> int \<times> bool \<times> jsstring \<times> bool" where
  "effectDeps st = (countdownSeconds st, autoGenerate st, transcriptText st, minutesLoading st)"

definition render :: "MinutesGeneration \<Rightarrow> MinutesGeneration \<Rightarrow> MinutesGeneration" where
  "render rendered updated =
     (if effectDeps updated \<noteq> effectDeps rendered then generationEffect updated
      else updated)"

text \<open>
  The events: a tick of the interval, the completion of the generation in
  flight, a new transcript from the parent, the two settings, a click on the
  generate button (which is disabled while there is no transcript text or a
  generation is loading), and a piece of minutes text streamed in.
\<close>

datatype minutes_event =
    Tick
  | Completed bool
  | TranscriptChanged jsstring
  | AutoGenerateSwitched bool
  | FrequencySelected int
  | GenerateClicked
  | MinutesStreamed

fun minutesStep :: "MinutesGeneration \<Rightarrow> minutes_event \<Rightarrow> MinutesGeneration" where
  "minutesStep st Tick =
     (if autoGenerate st \<and> generationFrequency st > 0 then render st (countdownTick st)
      else st)"
| "minutesStep st (Completed ok) =
     (if minutesLoading st then render st (completeMinutes ok st) else st)"
| "minutesStep st (TranscriptChanged t) = render st (st\<lparr>transcriptText := t\<rparr>)"
| "minutesStep st (AutoGenerateSwitched b) =
     (if b = autoGenerate st then st
      else countdownSetup (generationEffect (st\<lparr>autoGenerate := b\<rparr>)))"
| "minutesStep st (FrequencySelected n) =
     (if n = generationFrequency st then st
      else render st (countdownSetup (st\<lparr>generationFrequency := n\<rparr>)))"
| "minutesStep st GenerateClicked =
     (if \<not> hasTranscriptText st \<or> minutesLoading st then st
      else render st (handleManualGeneration st))"
| "minutesStep st MinutesStreamed = generationEffect st"

definition minutesRun :: "MinutesGeneration \<Rightarrow> minutes_event list \<Rightarrow> MinutesGeneration" where
  "minutesRun st events = foldl minutesStep st events"


definition blank_example :: MinutesGeneration where
  "blank_example =
     \<lparr>transcriptText = js ''  '', shouldGenerate = False, minutesStyle = custom,
      customPrompt = [], autoGenerate = True, generationFrequency = 1, countdownSeconds = 1,
      minutesLoading = False, generateCalls = [], toasts = []\<rparr>"



section \<open>Facts about the string methods\<close>

lemma split_not_Nil: "split sep s \<noteq> []"
  by (induction s) (auto split: list.splits)

lemma split_no_sep: "sep \<notin> set s \<Longrightarrow> split sep s = [s]"
  by (induction s) auto

lemma split_append_sep:
  "sep \<notin> set x \<Longrightarrow> split sep (x @ sep # s) = x # split sep s"
  by (induction x) auto

lemma split_join_Cons:
  "\<forall>x\<in>set (l # ls). sep \<notin> set x \<Longrightarrow> split sep (join [sep] (l # ls)) = l # ls"
proof (induction ls arbitrary: l)
  case Nil
  then show ?case by (simp add: split_no_sep)
next
  case (Cons y ys)
  have "split sep (join [sep] (l # y # ys)) = split sep (l @ sep # join [sep] (y # ys))"
    by simp
  also have "\<dots> = l # split sep (join [sep] (y # ys))"
    using Cons.prems by (simp add: split_append_sep)
  also have "\<dots> = l # y # ys"
    using Cons.IH [of y] Cons.prems by simp
  finally show ?case .
qed

lemma split_join:
  "ls \<noteq> [] \<Longrightarrow> \<forall>l\<in>set ls. sep \<notin> set l \<Longrightarrow> split sep (join [sep] ls) = ls"
  by (cases ls) (simp_all only: split_join_Cons list.simps not_False_eq_True)

lemma trim_Nil: "trim [] = []"
  by (simp add: trim_def trimEnd_def trimStart_def)

lemma parse_lines_foldl:
  "foldl (\<lambda>results line. case P line of Some payload \<Rightarrow> results @ [payload] | None \<Rightarrow> results)
     acc ls = acc @ List.map_filter P ls"
  by (induction ls arbitrary: acc) (auto simp: List.map_filter_simps split: option.splits)

lemma parseStreamChunk_map_filter:
  "parseStreamChunk P chunk =
     List.map_filter P (filter (\<lambda>line. trim line \<noteq> []) (split NL chunk))"
  by (simp add: parseStreamChunk_def parse_lines_foldl)

lemma map_filter_drop_blank:
  assumes "\<And>l. trim l = [] \<Longrightarrow> P l = None"
  shows "List.map_filter P (filter (\<lambda>line. trim line \<noteq> []) ls) = List.map_filter P ls"
  using assms by (induction ls) (auto simp: List.map_filter_simps split: option.splits)

lemma map_filter_all_Some:
  "\<forall>l\<in>set ls. P l \<noteq> None \<Longrightarrow> List.map_filter P ls = map (\<lambda>l. the (P l)) ls"
  by (induction ls) (auto simp: List.map_filter_simps)


section \<open>ChunkDecoder: the claims\<close>

text \<open>
  C7. \<^verbatim>\<open>JSON.parse\<close> rejects a line of white space only (as it does). Then for
  every chunk the decoder returns the decoded values of the lines of the chunk
  that parse, in the order of the lines, and nothing for a line that does not
  parse, whatever the other lines are; it is a total function, so no line makes
  it raise. For a chunk made of \<open>N\<close> records joined by newlines, each record on
  one line and valid JSON, it returns exactly their \<open>N\<close> values in order; with
  invalid records among them it returns the values of the valid ones. The empty
  chunk gives the empty list.
\<close>

theorem parseStreamChunk_correct:
  assumes blank: "\<And>l. trim l = [] \<Longrightarrow> JSON_parse l = None"
  shows "parseStreamChunk JSON_parse chunk = List.map_filter JSON_parse (split NL chunk)
    \<and> ((\<forall>l\<in>set ls. NL \<notin> set l \<and> JSON_parse l \<noteq> None) \<longrightarrow>
         parseStreamChunk JSON_parse (join [NL] ls) = map (\<lambda>l. the (JSON_parse l)) ls
         \<and> length (parseStreamChunk JSON_parse (join [NL] ls)) = length ls)
    \<and> ((\<forall>l\<in>set ls. NL \<notin> set l) \<longrightarrow>
         parseStreamChunk JSON_parse (join [NL] ls) = List.map_filter JSON_parse ls)
    \<and> parseStreamChunk JSON_parse [] = []"
proof -
  have general: "parseStreamChunk JSON_parse c = List.map_filter JSON_parse (split NL c)" for c
    by (simp only: parseStreamChunk_map_filter map_filter_drop_blank [of JSON_parse, OF blank])
  have empty: "parseStreamChunk JSON_parse [] = []"
    by (simp add: parseStreamChunk_map_filter trim_Nil List.map_filter_simps)
  have joined: "parseStreamChunk JSON_parse (join [NL] ls) = List.map_filter JSON_parse ls"
    if lines: "\<forall>l\<in>set ls. NL \<notin> set l"
  proof (cases "ls = []")
    case True
    then show ?thesis by (simp add: empty List.map_filter_simps)
  next
    case False
    then have "split NL (join [NL] ls) = ls"
      using lines by (rule split_join)
    then show ?thesis
      by (simp only: general)
  qed
  have valid: "parseStreamChunk JSON_parse (join [NL] ls) = map (\<lambda>l. the (JSON_parse l)) ls
         \<and> length (parseStreamChunk JSON_parse (join [NL] ls)) = length ls"
    if "\<forall>l\<in>set ls. NL \<notin> set l \<and> JSON_parse l \<noteq> None"
  proof -
    from that have "\<forall>l\<in>set ls. NL \<notin> set l" and "\<forall>l\<in>set ls. JSON_parse l \<noteq> None"
      by blast+
    then show ?thesis
      by (simp add: joined map_filter_all_Some)
  qed
  show ?thesis
    using general [of chunk] valid joined empty by blast
qed

lemma trim_eq_Nil_iff: "trim s = [] \<longleftrightarrow> (\<forall>c\<in>set s. isWhiteSpace c)"
proof
  assume "trim s = []"
  then have all: "\<forall>c\<in>set (dropWhile isWhiteSpace s). isWhiteSpace c"
    by (simp add: trim_def trimEnd_def trimStart_def dropWhile_eq_Nil_conv)
  have "dropWhile isWhiteSpace s = []"
  proof (rule ccontr)
    assume ne: "dropWhile isWhiteSpace s \<noteq> []"
    then have "\<not> isWhiteSpace (hd (dropWhile isWhiteSpace s))"
      by (rule hd_dropWhile)
    moreover have "hd (dropWhile isWhiteSpace s) \<in> set (dropWhile isWhiteSpace s)"
      using ne by simp
    ultimately show False using all by blast
  qed
  then show "\<forall>c\<in>set s. isWhiteSpace c"
    by (simp add: dropWhile_eq_Nil_conv)
next
  assume "\<forall>c\<in>set s. isWhiteSpace c"
  then have "dropWhile isWhiteSpace s = []"
    by (simp add: dropWhile_eq_Nil_conv)
  then show "trim s = []"
    by (simp only: trim_def trimEnd_def trimStart_def rev.simps dropWhile.simps)
qed

lemma parse_text_record_blank: "trim l = [] \<Longrightarrow> parse_text_record l = None"
proof (rule ccontr)
  assume blank: "trim l = []" and some: "parse_text_record l \<noteq> None"
  have "\<exists>c r. l = c # r \<and> \<not> isWhiteSpace c"
  proof (cases "l = js ''null''")
    case True
    then show ?thesis by (simp add: js_def isWhiteSpace_def)
  next
    case False
    with some have "take (length text_record_prefix) l = text_record_prefix"
      by (auto simp: parse_text_record_def Let_def split: if_splits)
    then obtain r where "l = 0x7B # r"
      by (cases l) (auto simp: text_record_prefix_def js_def)
    then show ?thesis by (simp add: isWhiteSpace_def)
  qed
  then obtain c r where "l = c # r" and "\<not> isWhiteSpace c"
    by blast
  then show False
    using blank by (auto simp: trim_eq_Nil_iff)
qed

theorem parseStreamChunk_correct_witness:
  "parseStreamChunk parse_text_record
     (join [NL] [text_record (js ''a''), js ''not json'', text_record (js ''b'')])
     = [Value \<lparr>text_field = Some (js ''a'')\<rparr>, Value \<lparr>text_field = Some (js ''b'')\<rparr>]
   \<and> parseStreamChunk parse_text_record
       (join [NL] [text_record (js ''a''), text_record (js ''b'')])
     = [Value \<lparr>text_field = Some (js ''a'')\<rparr>, Value \<lparr>text_field = Some (js ''b'')\<rparr>]
   \<and> parseStreamChunk parse_text_record [] = []"
proof -
  have a: "parse_text_record (text_record (js ''a'')) = Some (Value \<lparr>text_field = Some (js ''a'')\<rparr>)"
    by (simp add: parse_text_record_def text_record_def text_record_prefix_def
        text_record_suffix_def js_def plain_unit_def)
  have b: "parse_text_record (text_record (js ''b'')) = Some (Value \<lparr>text_field = Some (js ''b'')\<rparr>)"
    by (simp add: parse_text_record_def text_record_def text_record_prefix_def
        text_record_suffix_def js_def plain_unit_def)
  have o: "parse_text_record (js ''not json'') = None"
    by (simp add: parse_text_record_def text_record_prefix_def text_record_suffix_def js_def)
  have nl: "\<forall>l\<in>set [text_record (js ''a''), js ''not json'', text_record (js ''b'')]. NL \<notin> set l"
    by (simp add: text_record_def text_record_prefix_def text_record_suffix_def js_def NL_def)
  have nl2: "\<forall>l\<in>set [text_record (js ''a''), text_record (js ''b'')]. NL \<notin> set l"
    using nl by simp
  have v: "\<forall>l\<in>set [text_record (js ''a''), text_record (js ''b'')].
      NL \<notin> set l \<and> parse_text_record l \<noteq> None"
    using nl2 a b by simp
  note c = parseStreamChunk_correct [of parse_text_record, OF parse_text_record_blank]
  have 1: "parseStreamChunk parse_text_record
     (join [NL] [text_record (js ''a''), js ''not json'', text_record (js ''b'')])
     = List.map_filter parse_text_record
         [text_record (js ''a''), js ''not json'', text_record (js ''b'')]"
    using c [of "[]" "[text_record (js ''a''), js ''not json'', text_record (js ''b'')]"] nl
    by blast
  have 2: "parseStreamChunk parse_text_record
       (join [NL] [text_record (js ''a''), text_record (js ''b'')])
     = map (\<lambda>l. the (parse_text_record l)) [text_record (js ''a''), text_record (js ''b'')]"
    using c [of "[]" "[text_record (js ''a''), text_record (js ''b'')]"] v
    by blast
  have 3: "parseStreamChunk parse_text_record [] = []"
    using c [of "[]" "[]"] by blast
  show ?thesis
    unfolding 1 2 3 by (simp add: a b o List.map_filter_simps)
qed


section \<open>TranscriptReconciler: facts and claims\<close>


lemma findIndex_from_shift:
  "findIndex_from P xs (k + 1) =
     (if findIndex_from P xs k = - 1 \<and> (\<forall>x\<in>set xs. \<not> P x) then - 1 else findIndex_from P xs k + 1)"
  if "0 \<le> k"
  using that
proof (induction xs arbitrary: k)
  case Nil
  then show ?case by simp
next
  case (Cons x xs)
  show ?case
  proof (cases "P x")
    case True
    then show ?thesis using Cons.prems by auto
  next
    case False
    have "0 \<le> k + 1" using Cons.prems by simp
    from Cons.IH [OF this] Cons.IH [OF Cons.prems] False show ?thesis
      by (auto split: if_splits)
  qed
qed

lemma findIndex_from_none: "\<forall>x\<in>set xs. \<not> P x \<Longrightarrow> findIndex_from P xs k = - 1"
  by (induction xs arbitrary: k) auto

lemma findIndex_from_ge: "0 \<le> k \<Longrightarrow> \<exists>x\<in>set xs. P x \<Longrightarrow> k \<le> findIndex_from P xs k"
proof (induction xs arbitrary: k)
  case Nil
  then show ?case by simp
next
  case (Cons x xs)
  show ?case
  proof (cases "P x")
    case True
    then show ?thesis by simp
  next
    case False
    then have "\<exists>x\<in>set xs. P x" using Cons.prems by auto
    moreover have "0 \<le> k + 1" using Cons.prems by simp
    ultimately have "k + 1 \<le> findIndex_from P xs (k + 1)" by (rule Cons.IH [rotated])
    then show ?thesis using False by simp
  qed
qed

lemma updateTranscriptionSegments_Nil: "updateTranscriptionSegments new [] = [new]"
  by (simp add: updateTranscriptionSegments_def findIndex_def)

lemma updateTranscriptionSegments_Cons:
  "updateTranscriptionSegments new (x # xs) =
     (if segmentKey x = segmentKey new then new # xs
      else x # updateTranscriptionSegments new xs)"
proof (cases "segmentKey x = segmentKey new")
  case True
  then show ?thesis
    by (simp add: updateTranscriptionSegments_def findIndex_def segmentKey_def)
next
  case False
  let ?P = "\<lambda>seg. resultId seg = resultId new \<and> source seg = source new"
  have nP: "\<not> ?P x" using False by (auto simp: segmentKey_def)
  show ?thesis
  proof (cases "\<exists>y\<in>set xs. ?P y")
    case True
    then have ge: "0 \<le> findIndex_from ?P xs 0" by (intro findIndex_from_ge) simp_all
    have "findIndex_from ?P xs (0 + 1) = findIndex_from ?P xs 0 + 1"
      using findIndex_from_shift [of 0 ?P xs] ge by auto
    then show ?thesis
      using nP ge False
      by (auto simp: updateTranscriptionSegments_def findIndex_def nat_add_distrib)
  next
    case False
    then have "findIndex_from ?P xs 0 = - 1" "findIndex_from ?P xs 1 = - 1"
      by (simp_all add: findIndex_from_none)
    then show ?thesis
      using nP \<open>segmentKey x \<noteq> segmentKey new\<close>
      by (simp add: updateTranscriptionSegments_def findIndex_def)
  qed
qed

lemma update_keys_present:
  "segmentKey new \<in> set (map segmentKey prev) \<Longrightarrow>
     map segmentKey (updateTranscriptionSegments new prev) = map segmentKey prev"
  by (induction prev) (auto simp: updateTranscriptionSegments_Cons)

lemma update_keys_absent:
  "segmentKey new \<notin> set (map segmentKey prev) \<Longrightarrow>
     updateTranscriptionSegments new prev = prev @ [new]"
  by (induction prev) (auto simp: updateTranscriptionSegments_Cons updateTranscriptionSegments_Nil)

lemma update_distinct:
  "distinct (map segmentKey prev) \<Longrightarrow>
     distinct (map segmentKey (updateTranscriptionSegments new prev))"
  by (cases "segmentKey new \<in> set (map segmentKey prev)")
    (simp_all add: update_keys_present update_keys_absent)

lemma update_filter_key:
  "distinct (map segmentKey prev) \<Longrightarrow>
     filter (\<lambda>s. segmentKey s = k) (updateTranscriptionSegments new prev) =
       (if segmentKey new = k then [new] else filter (\<lambda>s. segmentKey s = k) prev)"
proof (induction prev)
  case Nil
  then show ?case by (simp add: updateTranscriptionSegments_Nil)
next
  case (Cons x xs)
  have "segmentKey x \<notin> segmentKey ` set xs"
    using Cons.prems by simp
  then have "\<forall>s\<in>set xs. segmentKey s \<noteq> segmentKey x"
    by (metis imageI)
  then have none: "filter (\<lambda>s. segmentKey s = segmentKey x) xs = []"
    by (simp add: filter_empty_conv)
  show ?case
    using Cons none by (auto simp: updateTranscriptionSegments_Cons)
qed

lemma upsertAll_distinct:
  "distinct (map segmentKey prev) \<Longrightarrow> distinct (map segmentKey (upsertAll prev segs))"
  unfolding upsertAll_def
  by (induction segs arbitrary: prev) (simp_all add: update_distinct)

lemma upsertAll_snoc:
  "upsertAll prev (segs @ [seg]) = updateTranscriptionSegments seg (upsertAll prev segs)"
  by (simp add: upsertAll_def)

lemma upsertAll_last_wins:
  "filter (\<lambda>s. segmentKey s = k) (upsertAll [] segs) =
     (case filter (\<lambda>s. segmentKey s = k) segs of [] \<Rightarrow> [] | y # ys \<Rightarrow> [last (y # ys)])"
proof (induction segs rule: rev_induct)
  case Nil
  then show ?case by (simp add: upsertAll_def)
next
  case (snoc seg segs)
  have d: "distinct (map segmentKey (upsertAll [] segs))"
    by (rule upsertAll_distinct) simp
  show ?case
    using snoc by (simp add: upsertAll_snoc update_filter_key [OF d] split: list.splits)
qed


lemma compareSegments_le:
  "compareSegments a b \<le> 0 \<longleftrightarrow> (sessionId a, startTime a) \<le> (sessionId b, startTime b)"
  by (auto simp: compareSegments_def less_eq_prod_def)

lemma insertBy_compareSegments:
  "insertBy compareSegments x ys = insort_key (\<lambda>s. (sessionId s, startTime s)) x ys"
  by (induction ys) (simp_all add: compareSegments_le)

lemma sortedSegments_sort_key:
  "sortedSegments xs = sort_key (\<lambda>s. (sessionId s, startTime s)) xs"
proof -
  have "insertBy compareSegments = insort_key (\<lambda>s. (sessionId s, startTime s))"
    by (intro ext) (rule insertBy_compareSegments)
  then show ?thesis
    by (simp add: sortedSegments_def sortBy_def sort_key_def)
qed

lemma sessionTimeOrder_key:
  "sessionTimeOrder a b \<longleftrightarrow> (sessionId a, startTime a) \<le> (sessionId b, startTime b)"
  by (auto simp: sessionTimeOrder_def less_eq_prod_def)

text \<open>
  C4. After any sequence of upserts into the empty collection, no two entries
  share a key \<open>(resultId, source)\<close>, and the entries with key \<open>k\<close> are exactly
  the last submitted segment with that key (last write wins). One upsert of a
  segment whose key is present keeps the sequence of keys, hence the length and
  every position, and puts the new segment in; one whose key is absent appends.
  A partial segment followed by a final one with the same key leaves exactly the
  final one.
\<close>

theorem updateTranscriptionSegments_dedup:
  "distinct (map segmentKey (upsertAll [] segs))
   \<and> filter (\<lambda>s. segmentKey s = k) (upsertAll [] segs) =
       (case filter (\<lambda>s. segmentKey s = k) segs of [] \<Rightarrow> [] | y # ys \<Rightarrow> [last (y # ys)])
   \<and> (segmentKey new \<in> set (map segmentKey prev) \<longrightarrow>
        map segmentKey (updateTranscriptionSegments new prev) = map segmentKey prev
        \<and> length (updateTranscriptionSegments new prev) = length prev
        \<and> new \<in> set (updateTranscriptionSegments new prev))
   \<and> (segmentKey new \<notin> set (map segmentKey prev) \<longrightarrow>
        updateTranscriptionSegments new prev = prev @ [new])
   \<and> (distinct (map segmentKey prev) \<longrightarrow>
        distinct (map segmentKey (updateTranscriptionSegments new prev)))
   \<and> (segmentKey final = segmentKey partial \<longrightarrow> upsertAll [] [partial, final] = [final])"
proof -
  have d: "distinct (map segmentKey (upsertAll [] segs))"
    by (rule upsertAll_distinct) simp
  have present: "map segmentKey (updateTranscriptionSegments new prev) = map segmentKey prev
      \<and> length (updateTranscriptionSegments new prev) = length prev
      \<and> new \<in> set (updateTranscriptionSegments new prev)"
    if "segmentKey new \<in> set (map segmentKey prev)"
  proof -
    have keys: "map segmentKey (updateTranscriptionSegments new prev) = map segmentKey prev"
      using that by (rule update_keys_present)
    then have len: "length (updateTranscriptionSegments new prev) = length prev"
      by (rule map_eq_imp_length_eq)
    have "new \<in> set (updateTranscriptionSegments new prev)"
      using that by (induction prev) (auto simp: updateTranscriptionSegments_Cons)
    with keys len show ?thesis by simp
  qed
  have two: "upsertAll [] [partial, final] = [final]" if "segmentKey final = segmentKey partial"
    using that
    by (simp add: upsertAll_def updateTranscriptionSegments_Nil updateTranscriptionSegments_Cons)
  show ?thesis
    using d upsertAll_last_wins [of k segs] present two
      update_keys_absent [of new prev] update_distinct [of prev new]
    by blast
qed



theorem updateTranscriptionSegments_dedup_witness:
  "segmentKey example_final = segmentKey example_partial
   \<and> segmentKey example_final \<in> set (map segmentKey [example_partial])
   \<and> distinct (map segmentKey [example_partial])
   \<and> upsertAll [] [example_partial, example_final] = [example_final]
   \<and> updateTranscriptionSegments example_final [example_partial] = [example_final]
   \<and> map transcript (transcripts (hd (upsertAll [] [example_partial, example_final])))
       = [js ''hello'']"
proof -
  have k: "segmentKey example_final = segmentKey example_partial"
    by (simp add: segmentKey_def example_final_def example_partial_def)
  have m: "segmentKey example_final \<in> set (map segmentKey [example_partial])"
    using k by simp
  have u: "upsertAll [] [example_partial, example_final] = [example_final]"
    using updateTranscriptionSegments_dedup
      [of "[example_partial, example_final]" "segmentKey example_final" example_final
        "[example_partial]" example_final example_partial] k
    by blast
  have u1: "updateTranscriptionSegments example_final [example_partial] = [example_final]"
    using u by (simp add: upsertAll_def updateTranscriptionSegments_Nil)
  have t: "map transcript (transcripts example_final) = [js ''hello'']"
    by (simp add: example_final_def)
  show ?thesis using k m u u1 t by simp
qed

lemma viewed_fragmentsFrom:
  "List.map_filter viewedSegment (fragmentsFrom prevSegment segments) = segments"
  by (induction segments arbitrary: prevSegment)
    (simp_all add: List.map_filter_def Let_def)

text \<open>
  C5. The sequence that is rendered is ordered by \<open>sessionId\<close>, then by
  \<open>startTime\<close>, both ascending; it is a permutation of the collection, and the
  segments with equal \<open>sessionId\<close> and \<open>startTime\<close> keep the order they have in
  the collection (the sort is stable). Both renders follow that sequence: the
  text is the texts of the segments in that order, joined by newlines, and the
  segment views of the list on the page are the segments in that order. A segment
  of session 0 that starts at 5 comes before a segment of session 1 that starts
  at 1, whichever was merged first, in the text and on the page.
\<close>

theorem sortedSegments_order:
  "sorted_wrt sessionTimeOrder (sortedSegments segments)
   \<and> mset (sortedSegments segments) = mset segments
   \<and> filter (\<lambda>s. sessionId s = i \<and> startTime s = t) (sortedSegments segments)
       = filter (\<lambda>s. sessionId s = i \<and> startTime s = t) segments
   \<and> transcriptionText formatTime speakerMapping segments
       = join [NL] (map (segmentText formatTime speakerMapping) (sortedSegments segments))
   \<and> List.map_filter viewedSegment (transcriptFragments segments) = sortedSegments segments
   \<and> (sessionId a = 0 \<and> startTime a = 5 \<and> sessionId b = 1 \<and> startTime b = 1 \<longrightarrow>
        sortedSegments [b, a] = [a, b] \<and> sortedSegments [a, b] = [a, b]
        \<and> transcriptionText formatTime speakerMapping [b, a]
            = segmentText formatTime speakerMapping a @ [NL]
              @ segmentText formatTime speakerMapping b
        \<and> transcriptFragments [b, a] = [SegmentView a, SessionDivider, SegmentView b])"
proof -
  let ?key = "\<lambda>s. (sessionId s, startTime s)"
  have "sorted (map ?key (sort_key ?key segments))"
    by (rule sorted_sort_key)
  then have "sorted_wrt (\<lambda>a b. ?key a \<le> ?key b) (sort_key ?key segments)"
    by (simp only: sorted_map)
  moreover have "(\<lambda>a b. ?key a \<le> ?key b) = sessionTimeOrder"
    by (intro ext) (simp only: sessionTimeOrder_key)
  ultimately have s: "sorted_wrt sessionTimeOrder (sortedSegments segments)"
    by (simp only: sortedSegments_sort_key)
  have m: "mset (sortedSegments segments) = mset segments"
    by (simp add: sortedSegments_sort_key)
  have "filter (\<lambda>s. ?key s = (i, t)) (sort_key ?key segments)
      = filter (\<lambda>s. ?key s = (i, t)) segments"
    by (rule sort_key_stable)
  then have f: "filter (\<lambda>s. sessionId s = i \<and> startTime s = t) (sortedSegments segments)
       = filter (\<lambda>s. sessionId s = i \<and> startTime s = t) segments"
    by (simp add: sortedSegments_sort_key)
  have tx: "transcriptionText formatTime speakerMapping segments
       = join [NL] (map (segmentText formatTime speakerMapping) (sortedSegments segments))"
    by (simp only: transcriptionText_def)
  have fr: "List.map_filter viewedSegment (transcriptFragments segments) = sortedSegments segments"
    by (simp only: transcriptFragments_def viewed_fragmentsFrom)
  have e: "sortedSegments [b, a] = [a, b] \<and> sortedSegments [a, b] = [a, b]
        \<and> transcriptionText formatTime speakerMapping [b, a]
            = segmentText formatTime speakerMapping a @ [NL]
              @ segmentText formatTime speakerMapping b
        \<and> transcriptFragments [b, a] = [SegmentView a, SessionDivider, SegmentView b]"
    if h: "sessionId a = 0 \<and> startTime a = 5 \<and> sessionId b = 1 \<and> startTime b = 1"
  proof -
    have so: "sortedSegments [b, a] = [a, b]" "sortedSegments [a, b] = [a, b]"
      using h by (simp_all add: sortedSegments_def sortBy_def compareSegments_def)
    have "transcriptionText formatTime speakerMapping [b, a]
        = segmentText formatTime speakerMapping a @ [NL]
          @ segmentText formatTime speakerMapping b"
      by (simp add: transcriptionText_def so)
    moreover have "transcriptFragments [b, a] = [SegmentView a, SessionDivider, SegmentView b]"
      using h by (simp add: transcriptFragments_def so)
    ultimately show ?thesis using so by simp
  qed
  show ?thesis using s m f tx fr e by blast
qed

theorem sortedSegments_order_witness:
  "sessionId example_session0 = 0 \<and> startTime example_session0 = 5
   \<and> sessionId example_session1 = 1 \<and> startTime example_session1 = 1
   \<and> sortedSegments [example_session1, example_session0] = [example_session0, example_session1]
   \<and> sortedSegments [example_session0, example_session1] = [example_session0, example_session1]
   \<and> sorted_wrt sessionTimeOrder (sortedSegments [example_session1, example_session0])
   \<and> transcriptionText (\<lambda>seconds. js ''t'') Map.empty [example_session1, example_session0]
       = js ''[t] five'' @ [NL] @ js ''[t] one''
   \<and> transcriptFragments [example_session1, example_session0]
       = [SegmentView example_session0, SessionDivider, SegmentView example_session1]"
proof -
  have h: "sessionId example_session0 = 0 \<and> startTime example_session0 = 5
      \<and> sessionId example_session1 = 1 \<and> startTime example_session1 = 1"
    by (simp add: example_session0_def example_session1_def)
  have t0: "segmentText (\<lambda>seconds. js ''t'') Map.empty example_session0 = js ''[t] five''"
    by (simp add: segmentText_def segmentLine_def example_session0_def js_def)
  have t1: "segmentText (\<lambda>seconds. js ''t'') Map.empty example_session1 = js ''[t] one''"
    by (simp add: segmentText_def segmentLine_def example_session1_def js_def)
  note o = sortedSegments_order [of "[example_session1, example_session0]" 0 5
        "\<lambda>seconds. js ''t''" Map.empty example_session0 example_session1]
  have 1: "sortedSegments [example_session1, example_session0]
      = [example_session0, example_session1]"
    and 2: "sortedSegments [example_session0, example_session1]
      = [example_session0, example_session1]"
    and 3: "sorted_wrt sessionTimeOrder (sortedSegments [example_session1, example_session0])"
    and 4: "transcriptionText (\<lambda>seconds. js ''t'') Map.empty
        [example_session1, example_session0]
      = segmentText (\<lambda>seconds. js ''t'') Map.empty example_session0 @ [NL]
        @ segmentText (\<lambda>seconds. js ''t'') Map.empty example_session1"
    and 5: "transcriptFragments [example_session1, example_session0]
       = [SegmentView example_session0, SessionDivider, SegmentView example_session1]"
    using o h by blast+
  show ?thesis
    using h 1 2 3 4 5 unfolding t0 t1 by blast
qed

text \<open>
  C9. \<^verbatim>\<open>handleClear\<close> empties the merged collection and sets the session
  counter to 0. The next render has no segment: the sorted sequence and the
  text are empty, and the two merging effects, which run again because the
  session counter changed, add nothing since the hooks' results were cleared.
\<close>

theorem handleClear_empties:
  "transcriptionSegments (handleClear st) = []
   \<and> currentSessionId (handleClear st) = 0
   \<and> sortedSegments (transcriptionSegments (handleClear st)) = []
   \<and> transcriptionText formatTime speakerMapping (transcriptionSegments (handleClear st)) = []
   \<and> processMicTranscripts (handleClear st) = handleClear st
   \<and> processScreenTranscripts (handleClear st) = handleClear st"
  by (simp add: handleClear_def sortedSegments_def sortBy_def transcriptionText_def
      processMicTranscripts_def processScreenTranscripts_def)


section \<open>MarkerExtractor: facts\<close>


lemma find_from_bounds:
  "find_from pat s k = Some j \<Longrightarrow> k \<le> j \<and> j + length pat \<le> k + length s"
proof (induction s arbitrary: k)
  case Nil
  then show ?case by (simp split: if_splits)
next
  case (Cons c s)
  show ?case
  proof (cases "prefix pat (c # s)")
    case True
    then have "length pat \<le> length (c # s)" by (rule prefix_length_le)
    with True Cons.prems show ?thesis by simp
  next
    case False
    with Cons.prems have "find_from pat s (Suc k) = Some j" by simp
    from Cons.IH [OF this] show ?thesis by simp
  qed
qed

lemma prefix_append_short:
  "prefix pat (s @ t) \<Longrightarrow> length pat \<le> length s \<Longrightarrow> prefix pat s"
  by (auto simp: prefix_append)

lemma find_from_append:
  "find_from pat s k = Some j \<Longrightarrow> find_from pat (s @ t) k = Some j"
proof (induction s arbitrary: k)
  case Nil
  then show ?case by (cases t) (simp_all split: if_splits)
next
  case (Cons c s)
  show ?case
  proof (cases "prefix pat (c # s)")
    case True
    then have "prefix pat ((c # s) @ t)" by (rule prefix_prefix)
    with True Cons.prems show ?thesis by simp
  next
    case False
    with Cons.prems have f: "find_from pat s (Suc k) = Some j" by simp
    from find_from_bounds [OF f] have "length pat \<le> length (c # s)" by simp
    with False have "\<not> prefix pat ((c # s) @ t)"
      using prefix_append_short by blast
    with Cons.IH [OF f] show ?thesis by simp
  qed
qed

lemma indexOf_range:
  assumes "indexOf s pat p = i" and "i \<noteq> - 1" and "0 \<le> p"
  shows "p \<le> i \<or> int (length s) \<le> i" and "0 \<le> i" and "i + int (length pat) \<le> int (length s)"
proof -
  let ?start = "min (nat p) (length s)"
  from assms obtain j where f: "find_from pat (drop ?start s) ?start = Some j" and i: "i = int j"
    by (auto simp: indexOf_def Let_def split: option.splits)
  from find_from_bounds [OF f] have b: "?start \<le> j" "j + length pat \<le> ?start + length (drop ?start s)"
    by simp_all
  show "0 \<le> i" using i by simp
  show "i + int (length pat) \<le> int (length s)" using b i by simp
  show "p \<le> i \<or> int (length s) \<le> i" using b i assms(3) by (auto simp: min_def split: if_splits)
qed

lemma indexOf_append:
  assumes "indexOf s pat p = i" and "i \<noteq> - 1" and "p \<le> int (length s)"
  shows "indexOf (s @ t) pat p = i"
proof -
  let ?start = "min (nat p) (length s)"
  have start: "min (nat p) (length (s @ t)) = ?start" using assms(3) by auto
  from assms obtain j where f: "find_from pat (drop ?start s) ?start = Some j" and i: "i = int j"
    by (auto simp: indexOf_def Let_def split: option.splits)
  have "drop ?start (s @ t) = drop ?start s @ t" by simp
  with find_from_append [OF f, of t] have "find_from pat (drop ?start (s @ t)) ?start = Some j"
    by simp
  then show ?thesis
    unfolding indexOf_def Let_def start using i by simp
qed

lemma slice_append:
  assumes "0 \<le> a" "0 \<le> e" "a \<le> int (length s)" "e \<le> int (length s)"
  shows "slice (s @ t) a e = slice s a e"
  using assms by (simp add: slice_def Let_def min_def nat_le_iff)

lemma slice1_drop:
  assumes "0 \<le> a" "a \<le> int (length s)"
  shows "slice1 s a = drop (nat a) s"
  using assms by (simp add: slice1_def slice_def Let_def)

lemma marker_lengths:
  "length SYSTEM_PROMPT_START_MARKER = 15" "length SYSTEM_PROMPT_END_MARKER = 16"
  "length MCP_SERVERS_START_MARKER = 22" "length MCP_SERVERS_END_MARKER = 23"
  by (simp_all add: SYSTEM_PROMPT_START_MARKER_def SYSTEM_PROMPT_END_MARKER_def
      MCP_SERVERS_START_MARKER_def MCP_SERVERS_END_MARKER_def js_def)

lemma parseMCPServers_append:
  assumes "parseMCPServers b = Some v"
  shows "parseMCPServers (b @ t) = Some v"
proof -
  let ?i = "indexOf b MCP_SERVERS_START_MARKER 0"
  let ?e = "indexOf b MCP_SERVERS_END_MARKER 0"
  from assms have i: "?i \<noteq> - 1" and e: "?e \<noteq> - 1" and lt: "?i < ?e"
    and v: "v = filter (\<lambda>line. length line > 0) (map trim (split NL
          (slice b (?i + int (length MCP_SERVERS_START_MARKER)) ?e)))"
    by (auto simp: parseMCPServers_def Let_def split: if_splits)
  have i': "indexOf (b @ t) MCP_SERVERS_START_MARKER 0 = ?i"
    by (rule indexOf_append [OF refl i]) simp
  have e': "indexOf (b @ t) MCP_SERVERS_END_MARKER 0 = ?e"
    by (rule indexOf_append [OF refl e]) simp
  have ri: "0 \<le> ?i" "?i + int (length MCP_SERVERS_START_MARKER) \<le> int (length b)"
    using indexOf_range [OF refl i] by simp_all
  have re: "0 \<le> ?e" "?e + int (length MCP_SERVERS_END_MARKER) \<le> int (length b)"
    using indexOf_range [OF refl e] by simp_all
  have "slice (b @ t) (?i + int (length MCP_SERVERS_START_MARKER)) ?e
      = slice b (?i + int (length MCP_SERVERS_START_MARKER)) ?e"
    using ri re by (intro slice_append) simp_all
  then show ?thesis
    using i e lt v by (simp add: parseMCPServers_def Let_def i' e')
qed

lemma systemPromptClosed_append:
  assumes "systemPromptClosed b"
  shows "systemPromptClosed (b @ t)" and "extractSystemPrompt (b @ t) = extractSystemPrompt b"
proof -
  let ?i = "indexOf b SYSTEM_PROMPT_START_MARKER 0"
  let ?cs = "?i + int (length SYSTEM_PROMPT_START_MARKER)"
  let ?e = "indexOf b SYSTEM_PROMPT_END_MARKER ?cs"
  from assms have i: "?i \<noteq> - 1" and e: "?e \<noteq> - 1"
    by (simp_all add: systemPromptClosed_def Let_def)
  have ri: "0 \<le> ?i" "?cs \<le> int (length b)"
    using indexOf_range [OF refl i] by simp_all
  have i': "indexOf (b @ t) SYSTEM_PROMPT_START_MARKER 0 = ?i"
    by (rule indexOf_append [OF refl i]) simp
  have e': "indexOf (b @ t) SYSTEM_PROMPT_END_MARKER ?cs = ?e"
    by (rule indexOf_append [OF refl e ri(2)])
  have re: "0 \<le> ?e" "?e \<le> int (length b)"
    using indexOf_range [OF refl e] ri by simp_all
  have sl: "slice (b @ t) ?cs ?e = slice b ?cs ?e"
    using ri re by (intro slice_append) simp_all
  show "systemPromptClosed (b @ t)"
    using i e by (simp add: systemPromptClosed_def Let_def i' e')
  show "extractSystemPrompt (b @ t) = extractSystemPrompt b"
    using i e by (simp add: extractSystemPrompt_def Let_def i' e' sl)
qed

lemma prefix_dropWhile_append: "prefix (dropWhile P x) (dropWhile P (x @ t))"
  by (induction x) simp_all

lemma extractSystemPrompt_open_prefix:
  assumes "\<not> systemPromptClosed (b @ t)"
  shows "prefix (extractSystemPrompt b) (extractSystemPrompt (b @ t))"
proof (cases "indexOf b SYSTEM_PROMPT_START_MARKER 0 = - 1")
  case True
  then show ?thesis by (simp add: extractSystemPrompt_def)
next
  case False
  let ?i = "indexOf b SYSTEM_PROMPT_START_MARKER 0"
  let ?cs = "?i + int (length SYSTEM_PROMPT_START_MARKER)"
  have ri: "0 \<le> ?i" "?cs \<le> int (length b)"
    using indexOf_range [OF refl False] by simp_all
  have i': "indexOf (b @ t) SYSTEM_PROMPT_START_MARKER 0 = ?i"
    by (rule indexOf_append [OF refl False]) simp
  have e': "indexOf (b @ t) SYSTEM_PROMPT_END_MARKER ?cs = - 1"
    using assms False by (simp add: systemPromptClosed_def Let_def i')
  have e: "indexOf b SYSTEM_PROMPT_END_MARKER ?cs = - 1"
  proof (rule ccontr)
    assume ne: "indexOf b SYSTEM_PROMPT_END_MARKER ?cs \<noteq> - 1"
    from indexOf_append [OF refl ne ri(2), of t] e' ne show False by simp
  qed
  have d: "slice1 b ?cs = drop (nat ?cs) b" "slice1 (b @ t) ?cs = drop (nat ?cs) b @ t"
    using ri by (simp_all add: slice1_drop nat_le_iff)
  show ?thesis
    using False e e' by (simp add: extractSystemPrompt_def Let_def i' d trimStart_def
        prefix_dropWhile_append)
qed

section \<open>The generation loop: facts\<close>

lemma empty_buffer:
  "parseMCPServers [] = None" "extractSystemPrompt [] = []" "\<not> systemPromptClosed []"
  by (simp_all add: parseMCPServers_def extractSystemPrompt_def systemPromptClosed_def
      indexOf_def MCP_SERVERS_START_MARKER_def SYSTEM_PROMPT_START_MARKER_def js_def)

lemma generateStart_invariant: "loopInvariant (calls st0) (generateStart st0)"
  by (simp add: loopInvariant_def fieldsInvariant_def generateStart_def empty_buffer)

lemma processText_invariant:
  assumes "loopInvariant i st"
  shows "loopInvariant i (processText i t st)"
proof (cases "t = []")
  case True
  then show ?thesis using assms by (simp add: processText_def)
next
  case False
  let ?raw = "rawOutput st i @ t"
  have mcp: "case parseMCPServers ?raw of
        Some v \<Rightarrow> mcpServersParsed (processText i t st) \<and> suggestedMCPServers (processText i t st) = v
      | None \<Rightarrow> \<not> mcpServersParsed (processText i t st) \<and> suggestedMCPServers (processText i t st) = []"
  proof (cases "parseMCPServers (rawOutput st i)")
    case None
    then show ?thesis
      using assms False
      by (auto simp: loopInvariant_def fieldsInvariant_def processText_def Let_def split: option.splits)
  next
    case (Some v)
    then have "parseMCPServers ?raw = Some v" by (rule parseMCPServers_append)
    then show ?thesis
      using assms False Some
      by (auto simp: loopInvariant_def fieldsInvariant_def processText_def Let_def split: option.splits)
  qed
  have raw: "rawOutput (processText i t st) i = ?raw"
    using False by (simp add: processText_def Let_def split: option.splits)
  have same: "streaming (processText i t st) i = streaming st i"
    "abortController (processText i t st) = abortController st"
    "isGenerating (processText i t st) = isGenerating st"
    "error (processText i t st) = error st"
    by (simp_all add: processText_def Let_def split: option.splits)
  have gp: "generatedPrompt (processText i t st) =
      (if extractSystemPrompt ?raw \<noteq> [] then extractSystemPrompt ?raw else generatedPrompt st)"
    using False by (simp add: processText_def Let_def split: option.splits)
  have prompt: "generatedPrompt (processText i t st) = extractSystemPrompt ?raw"
    if "extractSystemPrompt ?raw \<noteq> [] \<or> \<not> systemPromptClosed ?raw"
  proof (cases "extractSystemPrompt ?raw = []")
    case False
    then show ?thesis by (simp add: gp)
  next
    case True
    with that have nc: "\<not> systemPromptClosed ?raw" by simp
    then have "prefix (extractSystemPrompt (rawOutput st i)) (extractSystemPrompt ?raw)"
      by (rule extractSystemPrompt_open_prefix)
    with True have e: "extractSystemPrompt (rawOutput st i) = []" by simp
    have "\<not> systemPromptClosed (rawOutput st i)"
      using nc systemPromptClosed_append(1) by blast
    then have "generatedPrompt st = extractSystemPrompt (rawOutput st i)"
      using assms by (simp add: loopInvariant_def fieldsInvariant_def)
    then show ?thesis using True e by (simp add: gp)
  qed
  show ?thesis
    unfolding loopInvariant_def fieldsInvariant_def raw same
    using assms mcp prompt by (simp add: loopInvariant_def)
qed

lemma decodes_cases:
  "decodes P c \<Longrightarrow> extractTextFromChunks (parseStreamChunk P c) = Inr (decodedText P c)"
  "\<not> decodes P c \<Longrightarrow> extractTextFromChunks (parseStreamChunk P c) = Inl TypeError"
proof -
  have only: "e = TypeError" for e :: js_error
    by (cases e) simp
  show "decodes P c \<Longrightarrow> extractTextFromChunks (parseStreamChunk P c) = Inr (decodedText P c)"
    by (auto simp: decodes_def decodedText_def split: sum.splits)
  show "\<not> decodes P c \<Longrightarrow> extractTextFromChunks (parseStreamChunk P c) = Inl TypeError"
    using only by (auto simp: decodes_def split: sum.splits)
qed

lemma onChunk_decodes:
  "loopInvariant i st \<Longrightarrow> decodes P c \<Longrightarrow>
     onChunk P i c st = processText i (decodedText P c) st"
  by (simp add: onChunk_def loopInvariant_def decodes_cases)

lemma onChunk_throws:
  "loopInvariant i st \<Longrightarrow> \<not> decodes P c \<Longrightarrow>
     onChunk P i c st = finish i (st\<lparr>error := Some (js ''TypeError'')\<rparr>)"
  by (simp add: onChunk_def loopInvariant_def decodes_cases)

lemma run_chunks_Cons:
  "run P st (map (Chunk i) (c # cs)) = run P (onChunk P i c st) (map (Chunk i) cs)"
  by (simp add: run_def)

lemma run_chunks_ended:
  "\<not> streaming st i \<Longrightarrow> run P st (map (Chunk i) cs) = st"
  by (induction cs) (simp_all add: run_def onChunk_def)

lemma processText_rawOutput: "rawOutput (processText i t st) i = rawOutput st i @ t"
  by (simp add: processText_def Let_def split: option.splits)

lemma processText_parsed_stable:
  "mcpServersParsed st \<Longrightarrow>
     mcpServersParsed (processText i t st)
     \<and> suggestedMCPServers (processText i t st) = suggestedMCPServers st"
  by (simp add: processText_def Let_def)

lemma processText_closed_stable:
  assumes "loopInvariant i st" and "systemPromptClosed (rawOutput st i)"
  shows "systemPromptClosed (rawOutput (processText i t st) i)
     \<and> generatedPrompt (processText i t st) = generatedPrompt st"
proof -
  have c: "systemPromptClosed (rawOutput st i @ t)"
    and e: "extractSystemPrompt (rawOutput st i @ t) = extractSystemPrompt (rawOutput st i)"
    using assms(2) by (rule systemPromptClosed_append)+
  have g: "extractSystemPrompt (rawOutput st i) \<noteq> [] \<Longrightarrow>
      generatedPrompt st = extractSystemPrompt (rawOutput st i)"
    using assms(1) by (simp add: loopInvariant_def fieldsInvariant_def)
  show ?thesis
    using c e g by (auto simp: processText_def Let_def split: option.splits)
qed


lemma run_chunks:
  assumes "loopInvariant i st"
  shows "fieldsInvariant i (run P st (map (Chunk i) cs))
    \<and> rawOutput (run P st (map (Chunk i) cs)) i
        = rawOutput st i @ concat (map (decodedText P) (takeWhile (decodes P) cs))
    \<and> (list_all (decodes P) cs \<longrightarrow> loopInvariant i (run P st (map (Chunk i) cs)))
    \<and> (\<not> list_all (decodes P) cs \<longrightarrow>
          \<not> streaming (run P st (map (Chunk i) cs)) i
          \<and> error (run P st (map (Chunk i) cs)) = Some (js ''TypeError'')
          \<and> \<not> isGenerating (run P st (map (Chunk i) cs)))
    \<and> (mcpServersParsed st \<longrightarrow>
          mcpServersParsed (run P st (map (Chunk i) cs))
          \<and> suggestedMCPServers (run P st (map (Chunk i) cs)) = suggestedMCPServers st)
    \<and> (systemPromptClosed (rawOutput st i) \<longrightarrow>
          systemPromptClosed (rawOutput (run P st (map (Chunk i) cs)) i)
          \<and> generatedPrompt (run P st (map (Chunk i) cs)) = generatedPrompt st)"
  using assms
proof (induction cs arbitrary: st)
  case Nil
  then show ?case by (simp add: run_def loopInvariant_def)
next
  case (Cons c cs)
  show ?case
  proof (cases "decodes P c")
    case True
    let ?s = "processText i (decodedText P c) st"
    have step: "run P st (map (Chunk i) (c # cs)) = run P ?s (map (Chunk i) cs)"
      using onChunk_decodes [OF Cons.prems True] by (simp only: run_chunks_Cons)
    have inv: "loopInvariant i ?s"
      using Cons.prems by (rule processText_invariant)
    note ih = Cons.IH [OF inv]
    have raw: "rawOutput ?s i = rawOutput st i @ decodedText P c"
      by (rule processText_rawOutput)
    have p: "mcpServersParsed st \<longrightarrow>
        mcpServersParsed ?s \<and> suggestedMCPServers ?s = suggestedMCPServers st"
      using processText_parsed_stable [of st i "decodedText P c"] by blast
    have q: "systemPromptClosed (rawOutput st i) \<longrightarrow>
        systemPromptClosed (rawOutput ?s i) \<and> generatedPrompt ?s = generatedPrompt st"
      using processText_closed_stable [OF Cons.prems, of "decodedText P c"] by blast
    let ?r = "run P ?s (map (Chunk i) cs)"
    from ih have 1: "fieldsInvariant i ?r"
      and 2: "rawOutput ?r i
          = rawOutput ?s i @ concat (map (decodedText P) (takeWhile (decodes P) cs))"
      and 3: "list_all (decodes P) cs \<longrightarrow> loopInvariant i ?r"
      and 4: "\<not> list_all (decodes P) cs \<longrightarrow>
          \<not> streaming ?r i \<and> error ?r = Some (js ''TypeError'') \<and> \<not> isGenerating ?r"
      and 5: "mcpServersParsed ?s \<longrightarrow>
          mcpServersParsed ?r \<and> suggestedMCPServers ?r = suggestedMCPServers ?s"
      and 6: "systemPromptClosed (rawOutput ?s i) \<longrightarrow>
          systemPromptClosed (rawOutput ?r i) \<and> generatedPrompt ?r = generatedPrompt ?s"
      by blast+
    have b2: "rawOutput ?r i
        = rawOutput st i @ concat (map (decodedText P) (takeWhile (decodes P) (c # cs)))"
      using 2 raw True by simp
    have b3: "list_all (decodes P) (c # cs) \<longrightarrow> loopInvariant i ?r"
      using 3 by simp
    have b4: "\<not> list_all (decodes P) (c # cs) \<longrightarrow>
          \<not> streaming ?r i \<and> error ?r = Some (js ''TypeError'') \<and> \<not> isGenerating ?r"
      using 4 True by simp
    have b5: "mcpServersParsed st \<longrightarrow>
          mcpServersParsed ?r \<and> suggestedMCPServers ?r = suggestedMCPServers st"
      using 5 p by metis
    have b6: "systemPromptClosed (rawOutput st i) \<longrightarrow>
          systemPromptClosed (rawOutput ?r i) \<and> generatedPrompt ?r = generatedPrompt st"
      using 6 q by metis
    show ?thesis
      unfolding step using 1 b2 b3 b4 b5 b6 by blast
  next
    case False
    let ?s = "finish i (st\<lparr>error := Some (js ''TypeError'')\<rparr>)"
    have ended: "\<not> streaming ?s i"
      by (simp add: finish_def)
    have step: "run P st (map (Chunk i) (c # cs)) = ?s"
      using onChunk_throws [OF Cons.prems False] run_chunks_ended [OF ended, of P cs]
      by (simp only: run_chunks_Cons)
    have f: "fieldsInvariant i ?s"
      using Cons.prems
      by (auto simp: loopInvariant_def fieldsInvariant_def finish_def split: option.splits)
    show ?thesis
      unfolding step using f False by (simp add: finish_def)
  qed
qed


section \<open>MarkerExtractor and the generation loop: the claims\<close>

text \<open>
  C2. The claim asks, for every field, that the end marker is searched after the
  start marker. \<^verbatim>\<open>extractSystemPrompt\<close> does so. \<^verbatim>\<open>parseMCPServers\<close> takes the
  first end marker of the whole buffer: on a buffer where an end marker comes
  before the start marker, which a later end marker follows, it returns
  \<^verbatim>\<open>null\<close>, and keeps returning it however the buffer grows, while
  \<^verbatim>\<open>extractSystemPrompt\<close> on the buffer of the same shape returns the text
  between the start marker and the later end marker.
\<close>

theorem parseMCPServers_end_before_start:
  "parseMCPServers end_before_start_servers = None
   \<and> (\<forall>t. parseMCPServers (end_before_start_servers @ t) = None)
   \<and> extractSystemPrompt end_before_start_prompt = js ''a''"
proof -
  have e: "indexOf end_before_start_servers MCP_SERVERS_END_MARKER 0 = 0"
    by code_simp
  have s: "indexOf end_before_start_servers MCP_SERVERS_START_MARKER 0 = 23"
    by code_simp
  have n: "parseMCPServers (end_before_start_servers @ t) = None" for t
  proof -
    have "indexOf (end_before_start_servers @ t) MCP_SERVERS_END_MARKER 0 = 0"
      by (rule indexOf_append [OF e]) simp_all
    moreover have "indexOf (end_before_start_servers @ t) MCP_SERVERS_START_MARKER 0 = 23"
      by (rule indexOf_append [OF s]) simp_all
    ultimately show ?thesis by (simp add: parseMCPServers_def)
  qed
  have p: "extractSystemPrompt end_before_start_prompt = js ''a''"
    by code_simp
  show ?thesis using n [of "[]"] n p by simp
qed


lemma calls_initial: "calls initialPromptGeneration = 0"
  by (simp add: initialPromptGeneration_def)

lemma run_from_start:
  assumes st: "st = run P (generateStart st0) (map (Chunk (calls st0)) cs)"
  shows "fieldsInvariant (calls st0) st"
    and "rawOutput st (calls st0) = concat (map (decodedText P) (takeWhile (decodes P) cs))"
    and "list_all (decodes P) cs \<longrightarrow> loopInvariant (calls st0) st"
    and "\<not> list_all (decodes P) cs \<longrightarrow>
          \<not> streaming st (calls st0) \<and> error st = Some (js ''TypeError'') \<and> \<not> isGenerating st"
proof -
  note r = run_chunks [OF generateStart_invariant [of st0], of P cs, folded st]
  have e: "rawOutput (generateStart st0) (calls st0) = []"
    by (simp add: generateStart_def)
  show "fieldsInvariant (calls st0) st"
    using r by blast
  show "rawOutput st (calls st0) = concat (map (decodedText P) (takeWhile (decodes P) cs))"
    using r e by simp
  show "list_all (decodes P) cs \<longrightarrow> loopInvariant (calls st0) st"
    using r by blast
  show "\<not> list_all (decodes P) cs \<longrightarrow>
          \<not> streaming st (calls st0) \<and> error st = Some (js ''TypeError'') \<and> \<not> isGenerating st"
    using r by blast
qed

text \<open>
  C3, as amended. Let \<open>st\<close> be the state after the chunks \<open>cs\<close> of a call have
  arrived, and \<open>st'\<close> the state after the further chunks \<open>cs'\<close>. The buffer of
  \<open>st\<close> is the concatenation of the decoded texts of the chunks the loop has
  consumed, which are all of them unless one holds a \<^verbatim>\<open>null\<close> record, where
  the loop ends. The server list in the state is what \<^verbatim>\<open>parseMCPServers\<close> gives
  on the whole buffer in one shot (and the empty list while that is \<^verbatim>\<open>null\<close>).
  The prompt in the state is what \<^verbatim>\<open>extractSystemPrompt\<close> gives on the whole
  buffer in one shot whenever that is not empty. Once the server list has been
  parsed it stays parsed and keeps its value; once the system prompt is closed
  it stays closed, and the extracted value and the prompt in the state no longer
  change.
\<close>

theorem generate_loop_stable:
  assumes st: "st = run P (generateStart st0) (map (Chunk (calls st0)) cs)"
    and st': "st' = run P st (map (Chunk (calls st0)) cs')"
  shows "rawOutput st (calls st0) = concat (map (decodedText P) (takeWhile (decodes P) cs))
    \<and> (list_all (decodes P) cs \<longrightarrow>
          rawOutput st (calls st0) = concat (map (decodedText P) cs))
    \<and> (case parseMCPServers (rawOutput st (calls st0)) of
          Some servers \<Rightarrow> mcpServersParsed st \<and> suggestedMCPServers st = servers
        | None \<Rightarrow> \<not> mcpServersParsed st \<and> suggestedMCPServers st = [])
    \<and> (extractSystemPrompt (rawOutput st (calls st0)) \<noteq> [] \<longrightarrow>
          generatedPrompt st = extractSystemPrompt (rawOutput st (calls st0)))
    \<and> (mcpServersParsed st \<longrightarrow>
          mcpServersParsed st' \<and> suggestedMCPServers st' = suggestedMCPServers st)
    \<and> (systemPromptClosed (rawOutput st (calls st0)) \<longrightarrow>
          systemPromptClosed (rawOutput st' (calls st0)) \<and> generatedPrompt st' = generatedPrompt st
          \<and> extractSystemPrompt (rawOutput st' (calls st0))
              = extractSystemPrompt (rawOutput st (calls st0)))"
proof -
  let ?i = "calls st0"
  note r = run_from_start [OF st]
  have raw_all: "rawOutput st ?i = concat (map (decodedText P) cs)" if "list_all (decodes P) cs"
  proof -
    from that have "takeWhile (decodes P) cs = cs"
      by (simp add: list_all_iff)
    with r(2) show ?thesis by simp
  qed
  from r(1) have mcp: "case parseMCPServers (rawOutput st ?i) of
          Some servers \<Rightarrow> mcpServersParsed st \<and> suggestedMCPServers st = servers
        | None \<Rightarrow> \<not> mcpServersParsed st \<and> suggestedMCPServers st = []"
    and prompt: "extractSystemPrompt (rawOutput st ?i) \<noteq> [] \<longrightarrow>
          generatedPrompt st = extractSystemPrompt (rawOutput st ?i)"
    by (simp_all add: fieldsInvariant_def)
  have later: "(mcpServersParsed st \<longrightarrow>
          mcpServersParsed st' \<and> suggestedMCPServers st' = suggestedMCPServers st)
    \<and> (systemPromptClosed (rawOutput st ?i) \<longrightarrow>
          systemPromptClosed (rawOutput st' ?i) \<and> generatedPrompt st' = generatedPrompt st
          \<and> extractSystemPrompt (rawOutput st' ?i) = extractSystemPrompt (rawOutput st ?i))"
  proof (cases "list_all (decodes P) cs")
    case True
    with r(3) have inv: "loopInvariant ?i st" by blast
    note n = run_chunks [OF inv, of P cs', folded st']
    have ex: "extractSystemPrompt (rawOutput st' ?i) = extractSystemPrompt (rawOutput st ?i)"
      if c: "systemPromptClosed (rawOutput st ?i)"
    proof -
      from n have "rawOutput st' ?i
          = rawOutput st ?i @ concat (map (decodedText P) (takeWhile (decodes P) cs'))"
        by blast
      then show ?thesis
        using systemPromptClosed_append(2) [OF c] by simp
    qed
    show ?thesis using n ex by blast
  next
    case False
    with r(4) have "\<not> streaming st ?i" by blast
    then have "st' = st"
      unfolding st' by (rule run_chunks_ended)
    then show ?thesis by simp
  qed
  show ?thesis
    using r(2) raw_all mcp prompt later by blast
qed

theorem generate_loop_stable_witness:
  "rawOutput (run parse_text_record (generateStart initialPromptGeneration)
       (map (Chunk 0) prompt_chunks)) 0
     = concat (map (decodedText parse_text_record) prompt_chunks)
   \<and> parseMCPServers (rawOutput (run parse_text_record (generateStart initialPromptGeneration)
       (map (Chunk 0) (take 2 prompt_chunks))) 0) = Some [js ''a'']
   \<and> suggestedMCPServers (run parse_text_record (generateStart initialPromptGeneration)
       (map (Chunk 0) prompt_chunks)) = [js ''a'']
   \<and> systemPromptClosed (rawOutput (run parse_text_record
       (generateStart initialPromptGeneration) (map (Chunk 0) prompt_chunks)) 0)
   \<and> generatedPrompt (run parse_text_record (generateStart initialPromptGeneration)
       (map (Chunk 0) prompt_chunks)) = js ''You are helpful''
   \<and> rawOutput (run parse_text_record (generateStart initialPromptGeneration)
       (map (Chunk 0) null_record_chunks)) 0 = js ''<SYSTEM_PROMPT>Hi''
   \<and> generatedPrompt (run parse_text_record (generateStart initialPromptGeneration)
       (map (Chunk 0) null_record_chunks)) = js ''Hi''"
proof -
  let ?st = "run parse_text_record (generateStart initialPromptGeneration)
       (map (Chunk 0) (take 2 prompt_chunks))"
  let ?st' = "run parse_text_record ?st (map (Chunk 0) (drop 2 prompt_chunks))"
  let ?all = "run parse_text_record (generateStart initialPromptGeneration)
       (map (Chunk 0) prompt_chunks)"
  let ?nul = "run parse_text_record (generateStart initialPromptGeneration)
       (map (Chunk 0) null_record_chunks)"
  have all: "?st' = ?all"
    by (simp add: run_def prompt_chunks_def)
  have d: "list_all (decodes parse_text_record) prompt_chunks"
    by code_simp
  have p: "parseMCPServers (rawOutput ?st 0) = Some [js ''a'']"
    by code_simp
  have c: "systemPromptClosed (rawOutput ?all 0)"
    by code_simp
  have e: "extractSystemPrompt (rawOutput ?all 0) = js ''You are helpful''"
    by code_simp
  have ne: "js ''You are helpful'' \<noteq> []" "js ''Hi'' \<noteq> []"
    by (simp_all add: js_def)
  have tw: "concat (map (decodedText parse_text_record)
      (takeWhile (decodes parse_text_record) null_record_chunks)) = js ''<SYSTEM_PROMPT>Hi''"
    by code_simp
  have en: "extractSystemPrompt (js ''<SYSTEM_PROMPT>Hi'') = js ''Hi''"
    by code_simp
  note a = generate_loop_stable [OF refl refl, of parse_text_record initialPromptGeneration
        prompt_chunks "[]", unfolded calls_initial]
  note b = generate_loop_stable [OF refl refl, of parse_text_record initialPromptGeneration
        "take 2 prompt_chunks" "drop 2 prompt_chunks", unfolded calls_initial all]
  note n = generate_loop_stable [OF refl refl, of parse_text_record initialPromptGeneration
        null_record_chunks "[]", unfolded calls_initial]
  have 1: "rawOutput ?all 0 = concat (map (decodedText parse_text_record) prompt_chunks)"
    using a d by blast
  have "extractSystemPrompt (rawOutput ?all 0) \<noteq> []"
    unfolding e by (rule ne)
  with a have "generatedPrompt ?all = extractSystemPrompt (rawOutput ?all 0)"
    by blast
  then have 2: "generatedPrompt ?all = js ''You are helpful''"
    unfolding e .
  from b have "case parseMCPServers (rawOutput ?st 0) of
          Some servers \<Rightarrow> mcpServersParsed ?st \<and> suggestedMCPServers ?st = servers
        | None \<Rightarrow> \<not> mcpServersParsed ?st \<and> suggestedMCPServers ?st = []"
    by blast
  then have 3: "mcpServersParsed ?st" "suggestedMCPServers ?st = [js ''a'']"
    unfolding p by simp_all
  from b 3 have 4: "suggestedMCPServers ?all = [js ''a'']"
    by metis
  from n have "rawOutput ?nul 0 = concat (map (decodedText parse_text_record)
      (takeWhile (decodes parse_text_record) null_record_chunks))"
    by blast
  then have 5: "rawOutput ?nul 0 = js ''<SYSTEM_PROMPT>Hi''"
    unfolding tw .
  have "extractSystemPrompt (rawOutput ?nul 0) \<noteq> []"
    unfolding 5 en by (rule ne)
  with n have "generatedPrompt ?nul = extractSystemPrompt (rawOutput ?nul 0)"
    by blast
  then have 6: "generatedPrompt ?nul = js ''Hi''"
    unfolding 5 en .
  show ?thesis
    using 1 p 4 c 2 5 6 by blast
qed

text \<open>
  C3 as stated fails for a closed system prompt that is empty: the chunks
  \<^verbatim>\<open><SYSTEM_PROMPT> </SYS\<close> and \<^verbatim>\<open>TEM_PROMPT>\<close> close the field with the value
  \<^verbatim>\<open>""\<close>, which the guard \<^verbatim>\<open>if (systemPrompt)\<close> does not write, so the state
  keeps \<^verbatim>\<open></SYS\<close>, the open value of the first chunk.
\<close>

theorem generate_loop_stable_counterexample:
  "systemPromptClosed
     (rawOutput (run parse_text_record initialPromptGeneration split_end_marker_chunks) 0)
   \<and> extractSystemPrompt
       (rawOutput (run parse_text_record initialPromptGeneration split_end_marker_chunks) 0) = []
   \<and> generatedPrompt (run parse_text_record initialPromptGeneration split_end_marker_chunks)
       = js ''</SYS''"
  by code_simp

lemma extractSystemPrompt_open:
  assumes "systemPromptOpen raw"
  shows "extractSystemPrompt raw =
     trimStart (drop (nat (indexOf raw SYSTEM_PROMPT_START_MARKER 0)
                      + length SYSTEM_PROMPT_START_MARKER) raw)"
    and "\<not> systemPromptClosed raw"
proof -
  let ?i = "indexOf raw SYSTEM_PROMPT_START_MARKER 0"
  let ?cs = "?i + int (length SYSTEM_PROMPT_START_MARKER)"
  from assms have i: "?i \<noteq> - 1" and e: "indexOf raw SYSTEM_PROMPT_END_MARKER ?cs = - 1"
    by (simp_all add: systemPromptOpen_def Let_def)
  have ri: "0 \<le> ?i" "?cs \<le> int (length raw)"
    using indexOf_range [OF refl i] by simp_all
  have "slice1 raw ?cs = drop (nat ?cs) raw"
    using ri by (intro slice1_drop) simp_all
  moreover have "nat ?cs = nat ?i + length SYSTEM_PROMPT_START_MARKER"
    using ri by (simp add: nat_add_distrib)
  ultimately show "extractSystemPrompt raw =
     trimStart (drop (nat ?i + length SYSTEM_PROMPT_START_MARKER) raw)"
    using i e by (simp add: extractSystemPrompt_def Let_def)
  show "\<not> systemPromptClosed raw"
    using e by (simp add: systemPromptClosed_def Let_def)
qed

text \<open>
  C6, as amended. Let \<open>fin\<close> be the state when the stream has ended after the
  chunks \<open>cs\<close>. If the system prompt is open in the buffer, the prompt in the
  state is the buffer from the end of the start marker on, with leading white
  space dropped and nothing else. If the end marker of the server list never
  arrived, the server list in the state is the empty list and is not marked as
  parsed: an open list field surfaces nothing. An open field is no error: the
  error of the state is set only when a chunk holds a \<^verbatim>\<open>null\<close> record, on
  which the loop throws, and it is unset otherwise.
\<close>

theorem open_field_surfaced:
  assumes st: "st = run P (generateStart st0) (map (Chunk (calls st0)) cs)"
    and fin: "fin = onStreamEnd (calls st0) st"
  shows "(systemPromptOpen (rawOutput st (calls st0)) \<longrightarrow>
            generatedPrompt fin =
              trimStart (drop (nat (indexOf (rawOutput st (calls st0)) SYSTEM_PROMPT_START_MARKER 0)
                               + length SYSTEM_PROMPT_START_MARKER) (rawOutput st (calls st0)))
            \<and> generatedPrompt fin = extractSystemPrompt (rawOutput st (calls st0)))
    \<and> (indexOf (rawOutput st (calls st0)) MCP_SERVERS_END_MARKER 0 = - 1 \<longrightarrow>
            suggestedMCPServers fin = [] \<and> \<not> mcpServersParsed fin)
    \<and> error fin = (if list_all (decodes P) cs then None else Some (js ''TypeError''))
    \<and> \<not> isGenerating fin
    \<and> rawOutput fin (calls st0) = rawOutput st (calls st0)"
proof -
  let ?i = "calls st0"
  note r = run_from_start [OF st]
  have same: "generatedPrompt fin = generatedPrompt st"
    "suggestedMCPServers fin = suggestedMCPServers st"
    "mcpServersParsed fin = mcpServersParsed st" "rawOutput fin ?i = rawOutput st ?i"
    "error fin = error st"
    by (simp_all add: fin onStreamEnd_def finish_def)
  have prompt: "generatedPrompt st = extractSystemPrompt (rawOutput st ?i)"
    if "systemPromptOpen (rawOutput st ?i)"
    using r(1) extractSystemPrompt_open(2) [OF that] by (simp add: fieldsInvariant_def)
  have servers: "suggestedMCPServers st = [] \<and> \<not> mcpServersParsed st"
    if "indexOf (rawOutput st ?i) MCP_SERVERS_END_MARKER 0 = - 1"
  proof -
    from that have "parseMCPServers (rawOutput st ?i) = None"
      by (simp add: parseMCPServers_def)
    with r(1) show ?thesis by (simp add: fieldsInvariant_def)
  qed
  have err: "error st = (if list_all (decodes P) cs then None else Some (js ''TypeError''))"
    using r(3) r(4) by (auto simp: loopInvariant_def)
  have gen: "\<not> isGenerating fin"
  proof (cases "list_all (decodes P) cs")
    case True
    with r(3) have "streaming st ?i" by (simp add: loopInvariant_def)
    then show ?thesis by (simp add: fin onStreamEnd_def finish_def)
  next
    case False
    with r(4) have "\<not> streaming st ?i" "\<not> isGenerating st" by blast+
    then show ?thesis by (simp add: fin onStreamEnd_def)
  qed
  show ?thesis
    unfolding same
    using prompt extractSystemPrompt_open(1) [of "rawOutput st ?i"] servers err gen
    by auto
qed

theorem open_field_surfaced_witness:
  "systemPromptOpen (rawOutput (run parse_text_record (generateStart initialPromptGeneration)
       (map (Chunk 0) (take 2 prompt_chunks))) 0)
   \<and> generatedPrompt (onStreamEnd 0 (run parse_text_record
       (generateStart initialPromptGeneration)
       (map (Chunk 0) (take 2 prompt_chunks)))) = js ''You are''
   \<and> error (onStreamEnd 0 (run parse_text_record
       (generateStart initialPromptGeneration)
       (map (Chunk 0) (take 2 prompt_chunks)))) = None
   \<and> indexOf (rawOutput (run parse_text_record (generateStart initialPromptGeneration)
       (map (Chunk 0) [text_record (js ''<SELECTED_MCP_SERVERS>aws-docs'')])) 0)
       MCP_SERVERS_END_MARKER 0 = - 1
   \<and> suggestedMCPServers (onStreamEnd 0 (run parse_text_record
       (generateStart initialPromptGeneration)
       (map (Chunk 0) [text_record (js ''<SELECTED_MCP_SERVERS>aws-docs'')]))) = []
   \<and> error (onStreamEnd 0 (run parse_text_record
       (generateStart initialPromptGeneration)
       (map (Chunk 0) null_record_chunks))) = Some (js ''TypeError'')"
proof -
  let ?st = "run parse_text_record (generateStart initialPromptGeneration)
       (map (Chunk 0) (take 2 prompt_chunks))"
  let ?st2 = "run parse_text_record (generateStart initialPromptGeneration)
       (map (Chunk 0) [text_record (js ''<SELECTED_MCP_SERVERS>aws-docs'')])"
  let ?st3 = "run parse_text_record (generateStart initialPromptGeneration)
       (map (Chunk 0) null_record_chunks)"
  have opn: "systemPromptOpen (rawOutput ?st 0)"
    by code_simp
  have e: "extractSystemPrompt (rawOutput ?st 0) = js ''You are''"
    by code_simp
  have d: "list_all (decodes parse_text_record) (take 2 prompt_chunks)"
    by code_simp
  have nd: "\<not> list_all (decodes parse_text_record) null_record_chunks"
    by code_simp
  note a = open_field_surfaced [OF refl refl, of parse_text_record initialPromptGeneration
        "take 2 prompt_chunks", unfolded calls_initial]
  have 1: "generatedPrompt (onStreamEnd 0 ?st) = js ''You are''"
    using a opn e by metis
  have 2: "error (onStreamEnd 0 ?st) = None"
    using a d by metis
  have noend: "indexOf (rawOutput ?st2 0) MCP_SERVERS_END_MARKER 0 = - 1"
    by code_simp
  have 3: "suggestedMCPServers (onStreamEnd 0 ?st2) = []"
    using open_field_surfaced [OF refl refl, of parse_text_record initialPromptGeneration
        "[text_record (js ''<SELECTED_MCP_SERVERS>aws-docs'')]", unfolded calls_initial] noend
    by metis
  have 4: "error (onStreamEnd 0 ?st3) = Some (js ''TypeError'')"
    using open_field_surfaced [OF refl refl, of parse_text_record initialPromptGeneration
        null_record_chunks, unfolded calls_initial] nd
    by metis
  show ?thesis
    using opn 1 2 noend 3 4 by blast
qed

text \<open>
  C6 as stated fails for the list field: after the one chunk
  \<^verbatim>\<open><SELECTED_MCP_SERVERS>aws-docs\<close> and the end of the stream, the field is open
  with the open value \<^verbatim>\<open>aws-docs\<close>, and the server list in the state is empty.
\<close>

theorem open_field_surfaced_counterexample:
  "indexOf (rawOutput (run parse_text_record initialPromptGeneration open_servers_chunks) 0)
       MCP_SERVERS_START_MARKER 0 = 0
   \<and> indexOf (rawOutput (run parse_text_record initialPromptGeneration open_servers_chunks) 0)
       MCP_SERVERS_END_MARKER 22 = - 1
   \<and> trimStart (slice1 (rawOutput (run parse_text_record initialPromptGeneration
       open_servers_chunks) 0) 22) = js ''aws-docs''
   \<and> suggestedMCPServers (run parse_text_record initialPromptGeneration open_servers_chunks)
       = []"
  by code_simp


lemma step_single_call:
  assumes "\<forall>j. streaming st j \<longrightarrow> j = i \<and> abortController st \<noteq> None" and "e \<noteq> Generate"
  shows "\<forall>j. streaming (step P st e) j \<longrightarrow> j = i \<and> abortController (step P st e) \<noteq> None"
  using assms
  by (cases e)
    (auto simp: onChunk_def processText_def Let_def finish_def onStreamEnd_def
      onStreamError_def cancel_def split: option.splits if_splits sum.splits js_error.splits)

lemma run_single_call:
  assumes "\<forall>j. streaming st j \<longrightarrow> j = i \<and> abortController st \<noteq> None"
    and "Generate \<notin> set evs"
  shows "\<forall>j. streaming (run P st evs) j \<longrightarrow> j = i \<and> abortController (run P st evs) \<noteq> None"
  using assms(2)
proof (induction evs rule: rev_induct)
  case Nil
  then show ?case using assms(1) by (simp add: run_def)
next
  case (snoc e evs)
  have r: "run P st (evs @ [e]) = step P (run P st evs) e"
    by (simp add: run_def)
  from snoc have ih: "\<forall>j. streaming (run P st evs) j \<longrightarrow>
      j = i \<and> abortController (run P st evs) \<noteq> None" and ne: "e \<noteq> Generate"
    by auto
  show ?case
    unfolding r by (rule step_single_call [OF ih ne])
qed

lemma cancel_aborted:
  assumes "\<forall>j. streaming st j \<longrightarrow> j = i \<and> abortController st \<noteq> None"
  shows "\<forall>j. streaming (cancel st) j \<longrightarrow> j = i \<and> abortController (cancel st) = Some True"
    and "\<not> isGenerating (cancel st)"
    and "markerFields (cancel st) = markerFields st"
    and "error (cancel st) = error st"
    and "abortController (cancel st) \<noteq> Some False"
  using assms by (auto simp: cancel_def markerFields_def split: option.splits)

lemma step_after_cancel:
  assumes "\<forall>j. streaming st j \<longrightarrow> j = i \<and> abortController st = Some True"
    and "\<not> isGenerating st" and "abortController st \<noteq> Some False" and "e \<noteq> Generate"
  shows "\<forall>j. streaming (step P st e) j \<longrightarrow> j = i \<and> abortController (step P st e) = Some True"
    and "\<not> isGenerating (step P st e)"
    and "abortController (step P st e) \<noteq> Some False"
    and "markerFields (step P st e) = markerFields st"
    and "(\<forall>j name. e \<noteq> StreamError j name) \<longrightarrow> error (step P st e) = error st"
  using assms
  by (cases e; auto simp: onChunk_def finish_def onStreamEnd_def onStreamError_def
      cancel_def markerFields_def split: option.splits if_splits sum.splits js_error.splits)+

lemma run_after_cancel:
  assumes "\<forall>j. streaming st j \<longrightarrow> j = i \<and> abortController st = Some True"
    and "\<not> isGenerating st" and "abortController st \<noteq> Some False"
    and "Generate \<notin> set evs"
  shows "(\<forall>j. streaming (run P st evs) j \<longrightarrow> j = i \<and> abortController (run P st evs) = Some True)
    \<and> \<not> isGenerating (run P st evs)
    \<and> abortController (run P st evs) \<noteq> Some False
    \<and> markerFields (run P st evs) = markerFields st
    \<and> ((\<forall>e\<in>set evs. \<forall>j name. e \<noteq> StreamError j name) \<longrightarrow> error (run P st evs) = error st)"
  using assms(4)
proof (induction evs rule: rev_induct)
  case Nil
  then show ?case using assms by (simp add: run_def)
next
  case (snoc e evs)
  let ?m = "run P st evs"
  have r: "run P st (evs @ [e]) = step P ?m e"
    by (simp add: run_def)
  from snoc have a: "\<forall>j. streaming ?m j \<longrightarrow> j = i \<and> abortController ?m = Some True"
    and b: "\<not> isGenerating ?m" and c: "abortController ?m \<noteq> Some False"
    and m: "markerFields ?m = markerFields st"
    and er: "(\<forall>e\<in>set evs. \<forall>j name. e \<noteq> StreamError j name) \<longrightarrow> error ?m = error st"
    and ne: "e \<noteq> Generate"
    by auto
  note s = step_after_cancel [OF a b c ne, where P = P]
  show ?case
    unfolding r using s m er by auto
qed

lemma cancel_noop:
  assumes "\<not> isGenerating st" and "abortController st \<noteq> Some False"
  shows "cancel st = st"
  using assms by (cases "abortController st") (auto simp: cancel_def)

lemma cancel_stops_single_call:
  assumes idle: "\<forall>j. \<not> streaming st0 j"
    and st: "st = run P (generateStart st0) evs0" and one: "Generate \<notin> set evs0"
    and st': "st' = run P (cancel st) evs" and none: "Generate \<notin> set evs"
  shows "markerFields st' = markerFields st"
    and "\<not> isGenerating st'"
    and "(\<forall>e\<in>set evs. \<forall>j name. e \<noteq> StreamError j name) \<longrightarrow> error st' = error st"
    and "streaming st (calls st0) \<longrightarrow>
           onChunk P (calls st0) chunk (cancel st) = finish (calls st0) (cancel st)"
    and "cancel (cancel st) = cancel st"
    and "cancel st' = st'"
proof -
  have g: "\<forall>j. streaming (generateStart st0) j \<longrightarrow>
      j = calls st0 \<and> abortController (generateStart st0) \<noteq> None"
    using idle by (simp add: generateStart_def)
  have c: "\<forall>j. streaming st j \<longrightarrow> j = calls st0 \<and> abortController st \<noteq> None"
    unfolding st by (rule run_single_call [OF g one])
  note k = cancel_aborted [OF c]
  have r: "(\<forall>j. streaming st' j \<longrightarrow> j = calls st0 \<and> abortController st' = Some True)
    \<and> \<not> isGenerating st'
    \<and> abortController st' \<noteq> Some False
    \<and> markerFields st' = markerFields (cancel st)
    \<and> ((\<forall>e\<in>set evs. \<forall>j name. e \<noteq> StreamError j name) \<longrightarrow> error st' = error (cancel st))"
    unfolding st' by (rule run_after_cancel [OF k(1) k(2) k(5) none])
  show "markerFields st' = markerFields st"
    using r k(3) by simp
  show "\<not> isGenerating st'"
    using r by simp
  show "(\<forall>e\<in>set evs. \<forall>j name. e \<noteq> StreamError j name) \<longrightarrow> error st' = error st"
    using r k(4) by simp
  show "streaming st (calls st0) \<longrightarrow>
           onChunk P (calls st0) chunk (cancel st) = finish (calls st0) (cancel st)"
  proof
    assume "streaming st (calls st0)"
    then have "streaming (cancel st) (calls st0)"
      by (simp add: cancel_def split: option.splits)
    moreover from this k(1) have "abortController (cancel st) = Some True"
      by blast
    ultimately show "onChunk P (calls st0) chunk (cancel st) = finish (calls st0) (cancel st)"
      by (simp only: onChunk_def simp_thms if_True if_False)
  qed
  show "cancel (cancel st) = cancel st"
    using k(2) k(5) by (rule cancel_noop)
  from r have "\<not> isGenerating st'" and "abortController st' \<noteq> Some False"
    by blast+
  then show "cancel st' = st'"
    by (rule cancel_noop)
qed

text \<open>
  C8. The claim asks that after \<^verbatim>\<open>cancel()\<close> the loop of the cancelled call
  processes no further chunk and updates no state derived from the fields. The
  loop reads the signal through the shared ref \<^verbatim>\<open>abortControllerRef\<close>, which a
  new call of \<^verbatim>\<open>generate\<close> points to a fresh controller. So when the user
  cancels the first call and starts a second one before the stream of the first
  delivers its next chunk, the loop of the first call is still running, finds the
  signal not aborted, appends the late chunk to its buffer and overwrites the
  prompt of the state: the prompt is \<^verbatim>\<open>Hello\<close> at the cancel, empty after the
  restart, and \<^verbatim>\<open>Hello world\<close> after the late chunk of the cancelled call.
  The lemma \<open>cancel_stops_single_call\<close> above shows that without a second call
  the cancel does freeze the state, clears \<open>isGenerating\<close>, and is idempotent.
\<close>

theorem cancelled_call_still_updates:
  "generatedPrompt (run parse_text_record initialPromptGeneration
      [Generate, Chunk 0 (text_record (js ''<SYSTEM_PROMPT>Hello'')), Cancel]) = js ''Hello''
   \<and> generatedPrompt (run parse_text_record initialPromptGeneration cancelled_then_restarted) = []
   \<and> rawOutput (run parse_text_record initialPromptGeneration cancelled_then_restarted) 0
       = js ''<SYSTEM_PROMPT>Hello''
   \<and> streaming (run parse_text_record initialPromptGeneration cancelled_then_restarted) 0
   \<and> generatedPrompt (step parse_text_record
        (run parse_text_record initialPromptGeneration cancelled_then_restarted) late_chunk)
       = js ''Hello world''
   \<and> rawOutput (step parse_text_record
        (run parse_text_record initialPromptGeneration cancelled_then_restarted) late_chunk) 0
       = js ''<SYSTEM_PROMPT>Hello world''
   \<and> streaming (step parse_text_record
        (run parse_text_record initialPromptGeneration cancelled_then_restarted) late_chunk) 0"
  by code_simp



section \<open>RegenerationScheduler: facts and claims\<close>


lemma generationEffect_idempotent: "generationEffect (generationEffect st) = generationEffect st"
  by (simp add: generationEffect_def generateMinutes_def)


lemma generationEffect_blank:
  "trim (transcriptText st) = [] \<Longrightarrow> generationEffect st = st"
  by (simp add: generationEffect_def)

lemma generationEffect_calls:
  "generateCalls (generationEffect st) = generateCalls st
   \<or> (generateCalls (generationEffect st) = generateCalls st @ [transcriptText st]
       \<and> trim (transcriptText st) \<noteq> [])"
  by (simp add: generationEffect_def generateMinutes_def)

lemma generationEffect_transcript:
  "transcriptText (generationEffect st) = transcriptText st"
  by (simp add: generationEffect_def generateMinutes_def)












lemma step_calls:
  "generateCalls (minutesStep st e) = generateCalls st
   \<or> (generateCalls (minutesStep st e) = generateCalls st @ [transcriptText (minutesStep st e)]
       \<and> trim (transcriptText (minutesStep st e)) \<noteq> [])"
proof (cases e)
  case Tick
  then show ?thesis
    by (auto simp: render_def countdownTick_def Let_def generationEffect_def generateMinutes_def)
next
  case (Completed ok)
  then show ?thesis
    by (auto simp: render_def completeMinutes_def generationEffect_def generateMinutes_def)
next
  case (TranscriptChanged t)
  then show ?thesis
    by (auto simp: render_def generationEffect_def generateMinutes_def)
next
  case (AutoGenerateSwitched b)
  then show ?thesis
    by (auto simp: countdownSetup_def generationEffect_def generateMinutes_def)
next
  case (FrequencySelected n)
  then show ?thesis
    by (auto simp: render_def countdownSetup_def generationEffect_def generateMinutes_def)
next
  case GenerateClicked
  then show ?thesis
    by (auto simp: render_def handleManualGeneration_def hasTranscriptText_def
        generationEffect_def generateMinutes_def)
next
  case MinutesStreamed
  then show ?thesis
    by (auto simp: generationEffect_def generateMinutes_def)
qed

lemma run_calls_nonblank:
  "\<forall>t\<in>set (generateCalls st). trim t \<noteq> [] \<Longrightarrow>
     \<forall>t\<in>set (generateCalls (minutesRun st evs)). trim t \<noteq> []"
proof (induction evs rule: rev_induct)
  case Nil
  then show ?case by (simp add: minutesRun_def)
next
  case (snoc e evs)
  have r: "minutesRun st (evs @ [e]) = minutesStep (minutesRun st evs) e"
    by (simp add: minutesRun_def)
  show ?case
    unfolding r using step_calls [of "minutesRun st evs" e] snoc by auto
qed

text \<open>
  C10. No event issues a call when the transcript it leaves is empty or white
  space only, and every transcript ever passed to \<^verbatim>\<open>generateMinutes\<close> has text.
  A tick that fires while the transcript is blank leaves the signal set and
  issues no call. A click on the generate button while the transcript is blank
  changes nothing (the button is disabled); the handler itself issues no call
  then either, and the effect leaves the state as it is.
\<close>

theorem empty_transcript_gate:
  "(trim (transcriptText (minutesStep st e)) = [] \<longrightarrow>
       generateCalls (minutesStep st e) = generateCalls st)
   \<and> ((\<forall>t\<in>set (generateCalls st). trim t \<noteq> []) \<longrightarrow>
       (\<forall>t\<in>set (generateCalls (minutesRun st evs)). trim t \<noteq> []))
   \<and> (trim (transcriptText st) = [] \<and> autoGenerate st \<and> 0 < generationFrequency st
        \<and> countdownSeconds st \<le> 1 \<longrightarrow>
       shouldGenerate (minutesStep st Tick)
       \<and> generateCalls (minutesStep st Tick) = generateCalls st)
   \<and> (trim (transcriptText st) = [] \<longrightarrow>
       minutesStep st GenerateClicked = st
       \<and> generateCalls (handleManualGeneration st) = generateCalls st
       \<and> generationEffect st = st)"
proof -
  have a: "trim (transcriptText (minutesStep st e)) = [] \<longrightarrow>
       generateCalls (minutesStep st e) = generateCalls st"
    using step_calls [of st e] by auto
  have b: "(\<forall>t\<in>set (generateCalls st). trim t \<noteq> []) \<longrightarrow>
       (\<forall>t\<in>set (generateCalls (minutesRun st evs)). trim t \<noteq> [])"
    using run_calls_nonblank [of st evs] by blast
  have c: "shouldGenerate (minutesStep st Tick)
       \<and> generateCalls (minutesStep st Tick) = generateCalls st"
    if "trim (transcriptText st) = [] \<and> autoGenerate st \<and> 0 < generationFrequency st
        \<and> countdownSeconds st \<le> 1"
    using that
    by (simp add: render_def countdownTick_def Let_def generationEffect_def)
  have d: "minutesStep st GenerateClicked = st
       \<and> generateCalls (handleManualGeneration st) = generateCalls st
       \<and> generationEffect st = st"
    if "trim (transcriptText st) = []"
    using that
    by (simp add: hasTranscriptText_def handleManualGeneration_def generationEffect_def)
  show ?thesis
    using a b c d by blast
qed

theorem empty_transcript_gate_witness:
  "trim (transcriptText blank_example) = [] \<and> autoGenerate blank_example
   \<and> 0 < generationFrequency blank_example \<and> countdownSeconds blank_example \<le> 1
   \<and> generateCalls blank_example = []
   \<and> shouldGenerate (minutesStep blank_example Tick)
   \<and> generateCalls (minutesStep blank_example Tick) = []
   \<and> minutesStep blank_example GenerateClicked = blank_example
   \<and> generateCalls (handleManualGeneration blank_example) = []
   \<and> list_all (\<lambda>t. trim t \<noteq> []) (generateCalls (minutesRun blank_example
          [Tick, GenerateClicked, TranscriptChanged (js ''hi''), Completed True, GenerateClicked]))
   \<and> generateCalls (minutesRun blank_example
          [Tick, GenerateClicked, TranscriptChanged (js ''hi''), Completed True, GenerateClicked])
      = [js ''hi'']"
proof -
  have t: "trim (transcriptText blank_example) = []"
    by code_simp
  have h: "autoGenerate blank_example" "0 < generationFrequency blank_example"
    "countdownSeconds blank_example \<le> 1" "generateCalls blank_example = []"
    by (simp_all add: blank_example_def)
  have n: "\<forall>t\<in>set (generateCalls blank_example). trim t \<noteq> []"
    using h(4) by simp
  have r: "generateCalls (minutesRun blank_example
          [Tick, GenerateClicked, TranscriptChanged (js ''hi''), Completed True, GenerateClicked])
      = [js ''hi'']"
    by code_simp
  note g = empty_transcript_gate [of blank_example Tick
      "[Tick, GenerateClicked, TranscriptChanged (js ''hi''), Completed True, GenerateClicked]"]
  have 1: "shouldGenerate (minutesStep blank_example Tick)"
    and 2: "generateCalls (minutesStep blank_example Tick) = generateCalls blank_example"
    and 3: "minutesStep blank_example GenerateClicked = blank_example"
    and 4: "generateCalls (handleManualGeneration blank_example) = generateCalls blank_example"
    and 5: "\<forall>t\<in>set (generateCalls (minutesRun blank_example
          [Tick, GenerateClicked, TranscriptChanged (js ''hi''), Completed True, GenerateClicked])).
        trim t \<noteq> []"
    using g t h(1-3) n by blast+
  have 6: "list_all (\<lambda>t. trim t \<noteq> []) (generateCalls (minutesRun blank_example
          [Tick, GenerateClicked, TranscriptChanged (js ''hi''), Completed True, GenerateClicked]))"
    using 5 by (simp only: list_all_iff)
  show ?thesis
    using t h 1 2 3 4 6 r unfolding h(4) by blast
qed

end
